theory Spec2Isabelle
  imports Complex_Main
begin

section \<open>Tensors, errors and the array primitives used by models.py\<close>

text \<open>
  Tensors are nested lists of reals: a vector is a list, a matrix a list of rows, a batch a
  list of matrices. Floating-point numbers are idealised as reals. A raised exception is
  the left summand of a result.
\<close>

datatype error = IndexError | ShapeError | ZeroDivisionError | AssertionError

type_synonym vec = "real list"
type_synonym mat = "real list list"

text \<open>\<^verbatim>\<open>np.arange(a, b)\<close> and \<^verbatim>\<open>np.arange(a, b, s)\<close> on non-negative integers; a zero
  step raises.\<close>

definition arange :: "nat \<Rightarrow> nat \<Rightarrow> nat list" where
  "arange a b = [a..<b]"

definition arange_step :: "nat \<Rightarrow> nat \<Rightarrow> nat \<Rightarrow> error + nat list" where
  "arange_step a b s =
     (if s = 0 then Inl ZeroDivisionError
      else Inr (map (\<lambda>k. a + k * s) [0..<(b - a + s - 1) div s]))"

text \<open>\<^verbatim>\<open>i, j = np.meshgrid(xs, ys)\<close>: both results have one row per element of \<open>ys\<close>.\<close>

definition meshgrid :: "'a list \<Rightarrow> 'b list \<Rightarrow> 'a list list \<times> 'b list list" where
  "meshgrid xs ys = (map (\<lambda>y. xs) ys, map (\<lambda>y. map (\<lambda>x. y) xs) ys)"

text \<open>\<^verbatim>\<open>(j*D+i).ravel()\<close>: elementwise on two arrays of one shape, then row-major.\<close>

definition ravel_jDi :: "nat \<Rightarrow> nat list list \<times> nat list list \<Rightarrow> nat list" where
  "ravel_jDi D ij = concat (map2 (map2 (\<lambda>jv iv. jv * D + iv)) (snd ij) (fst ij))"

text \<open>The slice \<^verbatim>\<open>xs[:-k]\<close>; for \<open>k = 0\<close> it is \<^verbatim>\<open>xs[:0]\<close>, the empty array.\<close>

definition slice_to_neg :: "nat \<Rightarrow> 'a list \<Rightarrow> 'a list" where
  "slice_to_neg k xs = (if k = 0 then [] else take (length xs - k) xs)"

text \<open>Reading with an index array, \<^verbatim>\<open>xs[..., idx]\<close>: a copy, or IndexError.\<close>

definition gather :: "'a list \<Rightarrow> nat list \<Rightarrow> error + 'a list" where
  "gather xs idx =
     (if list_all (\<lambda>i. i < length xs) idx then Inr (map (\<lambda>i. xs ! i) idx)
      else Inl IndexError)"

text \<open>Writing with an index array, \<^verbatim>\<open>xs[..., idx] = vals\<close>: the values have the length of
  \<open>idx\<close>, or length one and are broadcast; the writes happen in the order of \<open>idx\<close>.
  The target holds \<open>None\<close> where nothing was written yet (\<^verbatim>\<open>torch.empty\<close>).\<close>

definition scatter :: "'a option list \<Rightarrow> nat list \<Rightarrow> 'a list \<Rightarrow> error + 'a option list" where
  "scatter xs idx vals =
     (if \<not> list_all (\<lambda>i. i < length xs) idx then Inl IndexError
      else if length vals = length idx then
        Inr (fold (\<lambda>(i, v) acc. acc[i := Some v]) (zip idx vals) xs)
      else if length vals = 1 then
        Inr (fold (\<lambda>i acc. acc[i := Some (hd vals)]) idx xs)
      else Inl ShapeError)"

text \<open>Elementwise product \<^verbatim>\<open>a*b\<close> of two tensors of one shape.\<close>

definition mul_elem :: "mat \<Rightarrow> mat \<Rightarrow> mat" where
  "mul_elem a b = map2 (map2 (*)) a b"

text \<open>Matrix product \<^verbatim>\<open>A @ B\<close> of two 2-D tensors.\<close>

definition matmul :: "mat \<Rightarrow> mat \<Rightarrow> error + mat" where
  "matmul A B =
     (let m = (case B of [] \<Rightarrow> 0 | r # _ \<Rightarrow> length r) in
      if list_all (\<lambda>r. length r = length B) A \<and> list_all (\<lambda>r. length r = m) B
      then Inr (map (\<lambda>r. map (\<lambda>j. sum_list (map2 (\<lambda>a brow. a * brow ! j) r B)) [0..<m]) A)
      else Inl ShapeError)"

fun map_err :: "('a \<Rightarrow> error + 'b) \<Rightarrow> 'a list \<Rightarrow> error + 'b list" where
  "map_err f [] = Inr []"
| "map_err f (x # xs) =
     (case f x of Inl e \<Rightarrow> Inl e
      | Inr y \<Rightarrow> (case map_err f xs of Inl e \<Rightarrow> Inl e | Inr ys \<Rightarrow> Inr (y # ys)))"

text \<open>Batched product of two 3-D tensors; a batch of one is broadcast.\<close>

definition bmm :: "mat list \<Rightarrow> mat list \<Rightarrow> error + mat list" where
  "bmm As Bs =
     (if length As = length Bs then map_err (\<lambda>(A, B). matmul A B) (zip As Bs)
      else if length As = 1 then map_err (\<lambda>B. matmul (hd As) B) Bs
      else if length Bs = 1 then map_err (\<lambda>A. matmul A (hd Bs)) As
      else Inl ShapeError)"

section \<open>ResidLinearDecoder\<close>

text \<open>
  The network is a learned function; it is a parameter here. It is applied to each
  coordinate row on its own (every layer is \<^verbatim>\<open>nn.Linear\<close> or an activation) and gives the
  two channels (real, imaginary), since \<open>FTSliceDecoder\<close> builds it with \<open>out_dim = 2\<close>.
  A row whose length is not \<open>in_dim\<close> makes the first linear layer raise.
\<close>

record ResidLinearDecoder =
  in_dim :: nat
  main :: "vec \<Rightarrow> real \<times> real"

definition ResidLinearDecoder_forward ::
  "ResidLinearDecoder \<Rightarrow> mat \<Rightarrow> error + (real \<times> real) list" where
  "ResidLinearDecoder_forward self x =
     (if list_all (\<lambda>r. length r = in_dim self) x then Inr (map (main self) x)
      else Inl ShapeError)"

section \<open>FTSliceDecoder\<close>

record FTSliceDecoder =
  decoder :: ResidLinearDecoder
  center :: nat
  extra :: "nat list"
  all_eval :: "nat list"
  top_ix :: "nat list"
  bottom_rev :: "nat list"
  img_D :: nat
  img_D2 :: nat

text \<open>\<^verbatim>\<open>FTSliceDecoder.__init__\<close>. \<open>D\<close> is the image width, a natural number, so
  \<^verbatim>\<open>int(D/2)\<close> is \<open>D div 2\<close>. The field \<open>top_ix\<close> is \<^verbatim>\<open>self.top\<close>.\<close>

definition FTSliceDecoder_init ::
  "nat \<Rightarrow> nat \<Rightarrow> (vec \<Rightarrow> real \<times> real) \<Rightarrow> error + FTSliceDecoder" where
  "FTSliceDecoder_init indim D net =
     (let D2 = D div 2;
          c = D2 * D + D2
      in case arange_step ((D2 + 1) * D) (D ^ 2) D of
           Inl e \<Rightarrow> Inl e
         | Inr ex \<Rightarrow>
             Inr \<lparr> decoder = \<lparr> in_dim = indim, main = net \<rparr>,
                   center = c,
                   extra = ex,
                   all_eval = arange 0 (c + 1) @ ex,
                   top_ix = slice_to_neg D2
                     (ravel_jDi D (meshgrid (arange 1 D) (arange 1 (D2 + 1)))),
                   bottom_rev = rev (drop D2
                     (ravel_jDi D (meshgrid (arange 1 D) (arange D2 D)))),
                   img_D = D,
                   img_D2 = D2 \<rparr>)"

text \<open>Negation of the three spatial components of a coordinate row,
  \<^verbatim>\<open>-lattice[...,0:3]\<close>; further (latent) components stay.\<close>

definition negate3 :: "vec \<Rightarrow> vec" where
  "negate3 p = map uminus (take 3 p) @ drop 3 p"

text \<open>
  \<^verbatim>\<open>FTSliceDecoder.decode\<close>. The argument is the caller's array, which the method writes
  to; the first component of the result is that array after the call, the second the
  returned tensor or the exception.
\<close>

definition decode ::
  "FTSliceDecoder \<Rightarrow> mat \<Rightarrow> mat \<times> (error + (real \<times> real) list)" where
  "decode self lattice =
     (if \<not> list_all (\<lambda>p. 3 \<le> length p) lattice then (lattice, Inl IndexError)
      else
        let w = map (\<lambda>p. p ! 2 > 0) lattice;
            lattice' = map2 (\<lambda>p m. if m then negate3 p else p) lattice w
        in case ResidLinearDecoder_forward (decoder self) lattice' of
             Inl e \<Rightarrow> (lattice', Inl e)
           | Inr result \<Rightarrow>
               (lattice',
                Inr (map2 (\<lambda>(re, im) m. if m then (re, im * (- 1)) else (re, im)) result w)))"

text \<open>
  \<^verbatim>\<open>FTSliceDecoder.forward\<close> on the lattice of one image (rows of coordinates, one per
  pixel). \<^verbatim>\<open>lattice[...,self.all_eval,:]\<close> indexes with an array and so makes a copy: what
  \<open>decode\<close> writes to it is dropped.
\<close>

definition forward1 :: "FTSliceDecoder \<Rightarrow> mat \<Rightarrow> error + real option list" where
  "forward1 self lattice =
     (let image = replicate (length lattice) None in
      case gather lattice (all_eval self) of
        Inl e \<Rightarrow> Inl e
      | Inr sub \<Rightarrow>
         (case snd (decode self sub) of
            Inl e \<Rightarrow> Inl e
          | Inr top_half \<Rightarrow>
             (case scatter image (all_eval self) (map (\<lambda>(re, im). re - im) top_half) of
                Inl e \<Rightarrow> Inl e
              | Inr image1 \<Rightarrow>
                 (case gather top_half (top_ix self) of
                    Inl e \<Rightarrow> Inl e
                  | Inr th \<Rightarrow>
                     scatter image1 (bottom_rev self) (map (\<lambda>(re, im). re + im) th)))))"

text \<open>The leading (batch) dimension: each image on its own.\<close>

definition FTSliceDecoder_forward ::
  "FTSliceDecoder \<Rightarrow> mat list \<Rightarrow> error + real option list list" where
  "FTSliceDecoder_forward self lattices = map_err (forward1 self) lattices"

section \<open>HetVAE\<close>

text \<open>
  Of the model object only what \<^verbatim>\<open>forward\<close> reads: the lattice's coordinates
  (\<^verbatim>\<open>self.lattice.coords\<close>, one row of three per pixel), \<open>z_dim\<close> and the decoder
  (\<^verbatim>\<open>self.decoder\<close>, here \<open>vae_decoder\<close>). The Lattice class is not part of the sources:
  its coordinates and its \<open>D\<close> are parameters of the constructor.
\<close>

record HetVAE =
  lattice_coords :: mat
  z_dim :: nat
  vae_decoder :: FTSliceDecoder

definition HetVAE_init ::
  "mat \<Rightarrow> nat \<Rightarrow> nat \<Rightarrow> (vec \<Rightarrow> real \<times> real) \<Rightarrow> error + HetVAE" where
  "HetVAE_init coords D zdim net =
     (case FTSliceDecoder_init (3 + zdim) D net of
        Inl e \<Rightarrow> Inl e
      | Inr d \<Rightarrow> Inr \<lparr> lattice_coords = coords, z_dim = zdim, vae_decoder = d \<rparr>)"

text \<open>
  \<^verbatim>\<open>HetVAE.cat_z\<close> as \<^verbatim>\<open>forward\<close> calls it: \<open>coords\<close> is B' x N x 3 and \<open>z\<close> is B x z_dim.
  \<^verbatim>\<open>z.view(z.size(0), 1, 1)\<close> needs as many elements as rows; \<^verbatim>\<open>expand\<close> needs B = B'
  or B = 1.
\<close>

definition cat_z :: "mat list \<Rightarrow> mat \<Rightarrow> error + mat list" where
  "cat_z coords z =
     (if \<not> list_all (list_all (\<lambda>p. length p = 3)) coords then Inl AssertionError
      else if length (concat z) \<noteq> length z then Inl ShapeError
      else
        let zv = concat z in
        if length zv = length coords then
          Inr (map2 (\<lambda>m v. map (\<lambda>p. p @ [v]) m) coords zv)
        else if length zv = 1 then
          Inr (map (\<lambda>m. map (\<lambda>p. p @ [hd zv]) m) coords)
        else Inl ShapeError)"

text \<open>\<^verbatim>\<open>HetVAE.forward\<close>: \<open>rot\<close> is a batch of matrices, \<open>z\<close> the latent codes.\<close>

definition HetVAE_forward ::
  "HetVAE \<Rightarrow> mat list \<Rightarrow> mat \<Rightarrow> error + real option list list" where
  "HetVAE_forward self rot z =
     (case map_err (matmul (lattice_coords self)) rot of
        Inl e \<Rightarrow> Inl e
      | Inr x \<Rightarrow>
         (case cat_z x z of
            Inl e \<Rightarrow> Inl e
          | Inr xz \<Rightarrow> FTSliceDecoder_forward (vae_decoder self) xz))"

section \<open>The lattice of VAE.__init__\<close>

text \<open>\<^verbatim>\<open>np.linspace(-1, 1, n, endpoint=False)\<close>.\<close>

definition linspace_open :: "nat \<Rightarrow> real list" where
  "linspace_open n = map (\<lambda>k. real k * (2 / real n) + (- 1)) [0..<n]"

definition VAE_lattice :: "nat \<Rightarrow> nat \<Rightarrow> mat" where
  "VAE_lattice nx ny =
     (let (x0, x1) = meshgrid (linspace_open nx) (linspace_open ny)
      in map (\<lambda>(a, b, c). [a, b, c])
           (zip (concat x0) (zip (concat x1) (replicate (ny * nx) 0))))"

section \<open>SO3reparameterize\<close>

text \<open>
  The random source is explicit: a supply of standard-normal draws and the position of
  the next one. \<^verbatim>\<open>torch.randn_like(t)\<close> fills the shape of \<open>t\<close> with the next draws and
  advances the position.
\<close>

record rng =
  draws :: "nat \<Rightarrow> real"
  pos :: nat

fun randn_like :: "mat \<Rightarrow> rng \<Rightarrow> mat \<times> rng" where
  "randn_like [] g = ([], g)"
| "randn_like (r # rs) g =
     (let row = map (\<lambda>k. draws g (pos g + k)) [0..<length r];
          (rest, g') = randn_like rs (g\<lparr>pos := pos g + length r\<rparr>)
      in (row # rest, g'))"

record SO3reparameterize =
  training :: bool

text \<open>
  \<^verbatim>\<open>SO3reparameterize.sampleSO3\<close>. \<^verbatim>\<open>lie_tools.expmap\<close> is not part of the sources and is a
  parameter. The result is the returned pair (or the exception) and the random source
  after the call.
\<close>

definition sampleSO3 ::
  "SO3reparameterize \<Rightarrow> (mat \<Rightarrow> error + mat list) \<Rightarrow> mat list \<Rightarrow> mat \<Rightarrow> rng
     \<Rightarrow> (error + mat list \<times> mat) \<times> rng" where
  "sampleSO3 self expmap z_mu z_std g =
     (if \<not> training self then (Inr (z_mu, z_std), g)
      else
        let (eps, g') = randn_like z_std g;
            w_eps = mul_elem eps z_std
        in case expmap w_eps of
             Inl e \<Rightarrow> (Inl e, g')
           | Inr rot_eps \<Rightarrow>
              (case bmm z_mu rot_eps of
                 Inl e \<Rightarrow> (Inl e, g')
               | Inr rot_sampled \<Rightarrow> (Inr (rot_sampled, w_eps), g')))"

section \<open>Reference notions and concrete instances\<close>

text \<open>The product of two 3 x 3 matrices, entry by entry, and the shape it needs.\<close>

definition mat_prod3 :: "mat \<Rightarrow> mat \<Rightarrow> mat" where
  "mat_prod3 A B =
     map (\<lambda>i. map (\<lambda>j. A ! i ! 0 * B ! 0 ! j + A ! i ! 1 * B ! 1 ! j + A ! i ! 2 * B ! 2 ! j)
        [0..<3]) [0..<3]"

definition is3x3 :: "mat \<Rightarrow> bool" where
  "is3x3 A = (length A = 3 \<and> list_all (\<lambda>r. length r = 3) A)"

definition ident3 :: mat where
  "ident3 = [[1, 0, 0], [0, 1, 0], [0, 0, 1]]"

definition rot_z90 :: mat where
  "rot_z90 = [[0, - 1, 0], [1, 0, 0], [0, 0, 1]]"

text \<open>A stand-in for the exponential map, right on zero tangent vectors only.\<close>

definition expmap_stub :: "mat \<Rightarrow> error + mat list" where
  "expmap_stub w = Inr (map (\<lambda>v. ident3) w)"

definition rng_zero :: rng where
  "rng_zero = \<lparr> draws = (\<lambda>k. 0), pos = 0 \<rparr>"

text \<open>
  A second stand-in for the exponential map that depends on the tangent vector: the
  identity plus the skew-symmetric generator of the vector (the exponential map to first
  order). And a random source whose draws are 0, 1, 2, ..., standing at position 1.
\<close>

definition expmap_skew :: "mat \<Rightarrow> error + mat list" where
  "expmap_skew w =
     (if list_all (\<lambda>v. length v = 3) w
      then Inr (map (\<lambda>v. [[1, - (v ! 2), v ! 1], [v ! 2, 1, - (v ! 0)], [- (v ! 1), v ! 0, 1]]) w)
      else Inl ShapeError)"

definition rng_count :: rng where
  "rng_count = \<lparr> draws = (\<lambda>k. real k), pos = 1 \<rparr>"

text \<open>Two core decoders in closed form: real channel the sum of the coordinates and
  imaginary channel zero; and a Hermitian one, with an even real and an odd imaginary
  channel.\<close>

definition net_sum :: "vec \<Rightarrow> real \<times> real" where
  "net_sum p = (sum_list p, 0)"

definition net_herm :: "vec \<Rightarrow> real \<times> real" where
  "net_herm p = (sum_list (map (\<lambda>x. x * x) (take 3 p)), sum_list (take 3 p))"

text \<open>The decoder object that the constructor builds for \<open>D = 4\<close>.\<close>

definition decoder4 :: "nat \<Rightarrow> (vec \<Rightarrow> real \<times> real) \<Rightarrow> FTSliceDecoder" where
  "decoder4 indim net =
     \<lparr> decoder = \<lparr> in_dim = indim, main = net \<rparr>,
       center = 10, extra = [12],
       all_eval = [0, 1, 2, 3, 4, 5, 6, 7, 8, 9, 10, 12],
       top_ix = [5, 6, 7, 9], bottom_rev = [15, 14, 13, 11],
       img_D = 4, img_D2 = 2 \<rparr>"

text \<open>The decoder object that the constructor builds for \<open>D = 3\<close>.\<close>

definition decoder3 :: "nat \<Rightarrow> (vec \<Rightarrow> real \<times> real) \<Rightarrow> FTSliceDecoder" where
  "decoder3 indim net =
     \<lparr> decoder = \<lparr> in_dim = indim, main = net \<rparr>,
       center = 4, extra = [6],
       all_eval = [0, 1, 2, 3, 4, 6],
       top_ix = [4], bottom_rev = [8, 7, 5],
       img_D = 3, img_D2 = 1 \<rparr>"

definition hetvae4 :: "(vec \<Rightarrow> real \<times> real) \<Rightarrow> HetVAE" where
  "hetvae4 net =
     \<lparr> lattice_coords = VAE_lattice 4 4, z_dim = 1, vae_decoder = decoder4 4 net \<rparr>"

text \<open>What \<open>decode\<close> returns for one coordinate row.\<close>

definition decode_row :: "ResidLinearDecoder \<Rightarrow> vec \<Rightarrow> real \<times> real" where
  "decode_row d p =
     (if p ! 2 > 0 then (fst (main d (negate3 p)), - snd (main d (negate3 p))) else main d p)"

text \<open>
  The naive evaluation of an image: the core decoder at every coordinate of the grid,
  real minus imaginary channel, without the symmetry shortcut.
\<close>

definition full_grid_eval :: "ResidLinearDecoder \<Rightarrow> mat \<Rightarrow> error + real list" where
  "full_grid_eval d lattice =
     (case ResidLinearDecoder_forward d lattice of
        Inl e \<Rightarrow> Inl e
      | Inr r \<Rightarrow> Inr (map (\<lambda>(re, im). re - im) r))"

text \<open>Orthonormality of a 3 x 3 matrix, and a matrix that is not orthonormal.\<close>

definition orthonormal3 :: "mat \<Rightarrow> bool" where
  "orthonormal3 R = (is3x3 R \<and> mat_prod3 (transpose R) R = ident3)"

definition scale2 :: mat where
  "scale2 = [[2, 0, 0], [0, 2, 0], [0, 0, 2]]"

text \<open>The entries of \<open>linspace_open n\<close>.\<close>

definition lin :: "nat \<Rightarrow> nat \<Rightarrow> real" where
  "lin n j = real j * (2 / real n) + (- 1)"

section \<open>Auxiliary facts\<close>

lemma len3_cases: "length r = 3 \<Longrightarrow> \<exists>a b c. r = [a, b, c]"
  by (metis length_0_conv length_Suc_conv numeral_3_eq_3)

lemma matmul_3x3:
  assumes "is3x3 A" "is3x3 B"
  shows "matmul A B = Inr (mat_prod3 A B)"
proof -
  obtain a0 a1 a2 where A: "A = [a0, a1, a2]"
    using assms(1) len3_cases unfolding is3x3_def by blast
  obtain b0 b1 b2 where B: "B = [b0, b1, b2]"
    using assms(2) len3_cases unfolding is3x3_def by blast
  have la: "length a0 = 3" "length a1 = 3" "length a2 = 3"
    using assms(1) by (simp_all add: is3x3_def A)
  have lb: "length b0 = 3" "length b1 = 3" "length b2 = 3"
    using assms(2) by (simp_all add: is3x3_def B)
  obtain x0 x1 x2 where a0: "a0 = [x0, x1, x2]" using la(1) len3_cases by blast
  obtain y0 y1 y2 where a1: "a1 = [y0, y1, y2]" using la(2) len3_cases by blast
  obtain z0 z1 z2 where a2: "a2 = [z0, z1, z2]" using la(3) len3_cases by blast
  have up: "[0..<3] = [0, 1, 2]" by (simp add: upt_rec)
  show ?thesis
    by (simp add: matmul_def mat_prod3_def A B la lb a0 a1 a2 up)
qed

lemma map_err_all_Inr:
  "(\<And>x. x \<in> set xs \<Longrightarrow> f x = Inr (h x)) \<Longrightarrow> map_err f xs = Inr (map h xs)"
  by (induction xs) auto

lemma bmm_3x3:
  assumes "length As = length Bs" "list_all is3x3 As" "list_all is3x3 Bs"
  shows "bmm As Bs = Inr (map2 mat_prod3 As Bs)"
proof -
  have "map_err (\<lambda>(A, B). matmul A B) (zip As Bs) = Inr (map (\<lambda>(A, B). mat_prod3 A B) (zip As Bs))"
  proof (rule map_err_all_Inr)
    fix x assume xin: "x \<in> set (zip As Bs)"
    obtain A B where x: "x = (A, B)" by (cases x)
    from xin x have "A \<in> set As" "B \<in> set Bs"
      by (auto dest: set_zip_leftD set_zip_rightD)
    then have "is3x3 A" "is3x3 B"
      using assms(2,3) by (simp_all add: list_all_iff)
    then show "(case x of (A, B) \<Rightarrow> matmul A B) = Inr (case x of (A, B) \<Rightarrow> mat_prod3 A B)"
      by (simp add: x matmul_3x3)
  qed
  then show ?thesis using assms(1) by (simp add: bmm_def)
qed

lemma randn_like_pos:
  "randn_like t g = (eps, g') \<Longrightarrow>
     draws g' = draws g \<and> pos g' = pos g + length (concat t) \<and>
     map length eps = map length t"
proof (induction t arbitrary: g eps g')
  case Nil
  then show ?case by simp
next
  case (Cons r rs)
  obtain rest g1 where r: "randn_like rs (g\<lparr>pos := pos g + length r\<rparr>) = (rest, g1)"
    by (cases "randn_like rs (g\<lparr>pos := pos g + length r\<rparr>)")
  from Cons.IH[OF r] Cons.prems r show ?case
    by (auto simp: Let_def)
qed

lemma randn_like_rows3:
  "list_all (\<lambda>r. length r = 3) t \<Longrightarrow>
     randn_like t g =
       (map (\<lambda>b. map (\<lambda>i. draws g (pos g + 3 * b + i)) [0..<3]) [0..<length t],
        g\<lparr>pos := pos g + 3 * length t\<rparr>)"
proof (induction t arbitrary: g)
  case Nil
  then show ?case by simp
next
  case (Cons r rs)
  have lr: "length r = 3" and rs: "list_all (\<lambda>r. length r = 3) rs"
    using Cons.prems by simp_all
  have ih: "randn_like rs (g\<lparr>pos := pos g + 3\<rparr>) =
       (map (\<lambda>b. map (\<lambda>i. draws g (pos g + 3 + 3 * b + i)) [0..<3]) [0..<length rs],
        g\<lparr>pos := pos g + 3 + 3 * length rs\<rparr>)"
    using Cons.IH[OF rs, of "g\<lparr>pos := pos g + 3\<rparr>"] by simp
  have sh: "map (\<lambda>b. map (\<lambda>i. draws g (pos g + 3 * b + i)) [0..<3]) [0..<Suc (length rs)]
      = map (\<lambda>i. draws g (pos g + i)) [0..<3]
        # map (\<lambda>b. map (\<lambda>i. draws g (pos g + 3 + 3 * b + i)) [0..<3]) [0..<length rs]"
    by (simp only: map_upt_Suc) (simp add: add.assoc)
  show ?case
    by (simp only: randn_like.simps lr ih Let_def split_conv length_Cons sh)
       (simp add: add.assoc)
qed

lemma map2_times_3:
  assumes "length a = 3" and "length b = 3"
  shows "map2 (*) a b = map (\<lambda>i. a ! i * b ! i) [0..<3 :: nat]"
proof -
  obtain a0 a1 a2 where a: "a = [a0, a1, a2]" using assms(1) len3_cases by blast
  obtain b0 b1 b2 where b: "b = [b0, b1, b2]" using assms(2) len3_cases by blast
  have up: "[0..<3] = [0, 1, 2]" by (simp add: upt_rec)
  show ?thesis by (simp add: a b up)
qed

lemma mul_elem_rows3:
  assumes "length e = length s"
    and "list_all (\<lambda>r. length r = 3) e" and "list_all (\<lambda>r. length r = 3) s"
  shows "mul_elem e s = map (\<lambda>b. map (\<lambda>i. e ! b ! i * s ! b ! i) [0..<3]) [0..<length s]"
proof (rule nth_equalityI)
  show "length (mul_elem e s)
          = length (map (\<lambda>b. map (\<lambda>i. e ! b ! i * s ! b ! i) [0..<3]) [0..<length s])"
    using assms(1) by (simp add: mul_elem_def)
next
  fix b assume "b < length (mul_elem e s)"
  then have b: "b < length s" "b < length e" using assms(1) by (simp_all add: mul_elem_def)
  then have "length (e ! b) = 3" "length (s ! b) = 3"
    using assms(2,3) by (simp_all add: list_all_length)
  then have "map2 (*) (e ! b) (s ! b) = map (\<lambda>i. e ! b ! i * s ! b ! i) [0..<3]"
    by (rule map2_times_3)
  then show "mul_elem e s ! b
          = map (\<lambda>b. map (\<lambda>i. e ! b ! i * s ! b ! i) [0..<3]) [0..<length s] ! b"
    using b by (simp add: mul_elem_def)
qed

lemma tangent_rows3:
  assumes "list_all (\<lambda>r. length r = 3) z_std"
  shows "mul_elem (fst (randn_like z_std g)) z_std
     = map (\<lambda>b. map (\<lambda>i. draws g (pos g + 3 * b + i) * z_std ! b ! i) [0..<3])
         [0..<length z_std]"
proof -
  define eps where "eps = map (\<lambda>b. map (\<lambda>i. draws g (pos g + 3 * b + i)) [0..<3]) [0..<length z_std]"
  have e: "fst (randn_like z_std g) = eps"
    by (simp add: randn_like_rows3[OF assms] eps_def)
  have le: "length eps = length z_std" by (simp add: eps_def)
  have re: "list_all (\<lambda>r. length r = 3) eps" by (simp add: eps_def list_all_iff)
  have "mul_elem eps z_std
      = map (\<lambda>b. map (\<lambda>i. eps ! b ! i * z_std ! b ! i) [0..<3]) [0..<length z_std]"
    by (rule mul_elem_rows3[OF le re assms])
  also have "\<dots> = map (\<lambda>b. map (\<lambda>i. draws g (pos g + 3 * b + i) * z_std ! b ! i) [0..<3])
         [0..<length z_std]"
    by (simp add: eps_def)
  finally show ?thesis by (simp add: e)
qed

lemma length_negate3: "length (negate3 p) = length p"
  by (simp add: negate3_def)

lemma negate3_nth2: "3 \<le> length p \<Longrightarrow> negate3 p ! 2 = - (p ! 2)"
  by (simp add: negate3_def nth_append)

lemma negate3_len3: "length p = 3 \<Longrightarrow> negate3 p = map uminus p"
  by (simp add: negate3_def)

lemma decode_buffer:
  assumes "list_all (\<lambda>p. 3 \<le> length p) lattice"
  shows "fst (decode self lattice) = map (\<lambda>p. if p ! 2 > 0 then negate3 p else p) lattice"
proof -
  have z: "map2 (\<lambda>p m. if m then negate3 p else p) lattice (map (\<lambda>p. p ! 2 > 0) lattice)
        = map (\<lambda>p. if p ! 2 > 0 then negate3 p else p) lattice"
    by (simp add: zip_map2 zip_same_conv_map)
  show ?thesis
    using assms by (simp add: decode_def Let_def z split: sum.splits)
qed

lemma decode_result:
  assumes "list_all (\<lambda>p. 3 \<le> length p) lattice"
    and "list_all (\<lambda>p. length p = in_dim (decoder self)) lattice"
  shows "snd (decode self lattice) =
     Inr (map (\<lambda>p. if p ! 2 > 0
                  then (fst (main (decoder self) (negate3 p)), - snd (main (decoder self) (negate3 p)))
                  else main (decoder self) p) lattice)"
proof -
  let ?f = "\<lambda>p. if p ! 2 > 0 then negate3 p else p"
  have z: "map2 (\<lambda>p m. if m then negate3 p else p) lattice (map (\<lambda>p. p ! 2 > 0) lattice)
        = map ?f lattice"
    by (simp add: zip_map2 zip_same_conv_map)
  have len: "list_all (\<lambda>r. length r = in_dim (decoder self)) (map ?f lattice)"
    using assms(2) by (auto simp: list_all_iff length_negate3)
  have fw: "ResidLinearDecoder_forward (decoder self) (map ?f lattice)
              = Inr (map (main (decoder self)) (map ?f lattice))"
    using len by (simp add: ResidLinearDecoder_forward_def)
  have "map2 (\<lambda>(re, im) m. if m then (re, im * (- 1)) else (re, im))
          (map (main (decoder self)) (map ?f lattice)) (map (\<lambda>p. p ! 2 > 0) lattice)
        = map (\<lambda>p. if p ! 2 > 0
                  then (fst (main (decoder self) (negate3 p)), - snd (main (decoder self) (negate3 p)))
                  else main (decoder self) p) lattice"
    by (simp add: zip_map_map zip_same_conv_map split_beta)
  then show ?thesis
    using assms(1) by (simp add: decode_def Let_def z fw)
qed

lemma length_concat_rect:
  "list_all (\<lambda>r. length r = n) z \<Longrightarrow> length (concat z) = length z * n"
  by (induction z) auto

lemma cat_z_fails:
  assumes "z \<noteq> []" and "list_all (\<lambda>r. length r = zd) z" and "1 < zd"
  shows "\<exists>e. cat_z coords z = Inl e"
proof -
  have "length (concat z) = length z * zd"
    by (rule length_concat_rect[OF assms(2)])
  moreover have "0 < length z" using assms(1) by simp
  ultimately have "length (concat z) \<noteq> length z"
    using assms(3) by simp
  then show ?thesis by (simp add: cat_z_def)
qed

lemma VAE_lattice_4x4:
  "VAE_lattice 4 4 =
     [[- 1, - 1, 0], [- (1 / 2), - 1, 0], [0, - 1, 0], [1 / 2, - 1, 0],
      [- 1, - (1 / 2), 0], [- (1 / 2), - (1 / 2), 0], [0, - (1 / 2), 0], [1 / 2, - (1 / 2), 0],
      [- 1, 0, 0], [- (1 / 2), 0, 0], [0, 0, 0], [1 / 2, 0, 0],
      [- 1, 1 / 2, 0], [- (1 / 2), 1 / 2, 0], [0, 1 / 2, 0], [1 / 2, 1 / 2, 0]]"
  by (simp add: VAE_lattice_def linspace_open_def meshgrid_def upt_rec eval_nat_numeral)

lemma init_4: "FTSliceDecoder_init indim 4 net = Inr (decoder4 indim net)"
  by (simp add: FTSliceDecoder_init_def decoder4_def arange_step_def arange_def
      slice_to_neg_def ravel_jDi_def meshgrid_def upt_rec)

lemma matmul_lattice4_ident3:
  "matmul (VAE_lattice 4 4) ident3 = Inr (VAE_lattice 4 4)"
  by (simp add: VAE_lattice_4x4 matmul_def ident3_def upt_rec)

lemma init_3: "FTSliceDecoder_init indim 3 net = Inr (decoder3 indim net)"
  by (simp add: FTSliceDecoder_init_def decoder3_def arange_step_def arange_def
      slice_to_neg_def ravel_jDi_def meshgrid_def upt_rec)

subsection \<open>The index lists in closed form\<close>

lemma ravel_meshgrid:
  "ravel_jDi D (meshgrid xs ys) = concat (map (\<lambda>j. map (\<lambda>i. j * D + i) xs) ys)"
proof -
  have inner: "map2 (\<lambda>jv iv. jv * D + iv) (map (\<lambda>x. y) xs) xs = map (\<lambda>i. y * D + i) xs" for y
    by (simp add: zip_map1 zip_same_conv_map)
  have "map2 (map2 (\<lambda>jv iv. jv * D + iv)) (map (\<lambda>y. map (\<lambda>x. y) xs) ys) (map (\<lambda>y. xs) ys)
          = map (\<lambda>j. map (\<lambda>i. j * D + i) xs) ys"
    by (simp add: zip_map_map zip_same_conv_map inner)
  then show ?thesis by (simp add: ravel_jDi_def meshgrid_def)
qed

lemma filter_row_nz:
  assumes "0 < D"
  shows "filter (\<lambda>k. k mod D \<noteq> 0) [b * D..<b * D + D] = map (\<lambda>i. b * D + i) [1..<D]"
proof -
  have "[b * D..<b * D + D] = map (\<lambda>i. b * D + i) [0..<D]"
    by (simp add: map_add_upt add.commute)
  moreover have "filter ((\<lambda>k. k mod D \<noteq> 0) \<circ> (\<lambda>i. b * D + i)) [0..<D] = [1..<D]"
  proof -
    have "[0..<D] = 0 # [1..<D]" using assms by (simp add: upt_conv_Cons)
    moreover have "filter ((\<lambda>k. k mod D \<noteq> 0) \<circ> (\<lambda>i. b * D + i)) [1..<D] = [1..<D]"
      by (rule filter_True) auto
    ultimately show ?thesis by simp
  qed
  ultimately show ?thesis by (simp add: filter_map)
qed

lemma filter_row_z:
  assumes "0 < D"
  shows "filter (\<lambda>k. k mod D = 0) [b * D..<b * D + D] = [b * D]"
proof -
  have "[b * D..<b * D + D] = map (\<lambda>i. b * D + i) [0..<D]"
    by (simp add: map_add_upt add.commute)
  moreover have "filter ((\<lambda>k. k mod D = 0) \<circ> (\<lambda>i. b * D + i)) [0..<D] = [0]"
  proof -
    have "[0..<D] = 0 # [1..<D]" using assms by (simp add: upt_conv_Cons)
    moreover have "filter ((\<lambda>k. k mod D = 0) \<circ> (\<lambda>i. b * D + i)) [1..<D] = []"
      by (rule filter_False) auto
    ultimately show ?thesis by simp
  qed
  ultimately show ?thesis by (simp add: filter_map)
qed

lemma upt_rows_Suc: "a \<le> b \<Longrightarrow> [a * D..<Suc b * D] = [a * D..<b * D] @ [b * D..<b * D + D]"
proof -
  assume "a \<le> b"
  then have "a * D \<le> b * D" by simp
  then have "[a * D..<b * D + D] = [a * D..<b * D] @ [b * D..<b * D + D]"
    by (rule upt_add_eq_append)
  then show ?thesis by (simp add: add.commute)
qed

lemma rows_filter_nz:
  assumes "0 < D" "a \<le> b"
  shows "concat (map (\<lambda>j. map (\<lambda>i. j * D + i) [1..<D]) [a..<b])
           = filter (\<lambda>k. k mod D \<noteq> 0) [a * D..<b * D]"
  using assms(2)
proof (induction b)
  case 0
  then show ?case by simp
next
  case (Suc b)
  show ?case
  proof (cases "a = Suc b")
    case True
    then show ?thesis by simp
  next
    case False
    then have ab: "a \<le> b" using Suc.prems by simp
    then show ?thesis
      using Suc.IH[OF ab] filter_row_nz[OF assms(1), of b]
      by (simp add: upt_rows_Suc[OF ab] del: mult_Suc)
  qed
qed

lemma rows_filter_z:
  assumes "0 < D" "a \<le> b"
  shows "map (\<lambda>j. j * D) [a..<b] = filter (\<lambda>k. k mod D = 0) [a * D..<b * D]"
  using assms(2)
proof (induction b)
  case 0
  then show ?case by simp
next
  case (Suc b)
  show ?case
  proof (cases "a = Suc b")
    case True
    then show ?thesis by simp
  next
    case False
    then have ab: "a \<le> b" using Suc.prems by simp
    then show ?thesis
      using Suc.IH[OF ab] filter_row_z[OF assms(1), of b]
      by (simp add: upt_rows_Suc[OF ab] del: mult_Suc)
  qed
qed

lemma arange_step_rows:
  assumes "0 < D" "a \<le> b"
  shows "arange_step (a * D) (b * D) D = Inr (map (\<lambda>j. j * D) [a..<b])"
proof -
  have "b * D - a * D = (b - a) * D" by (simp add: diff_mult_distrib)
  then have "b * D - a * D + D - 1 = (D - 1) + (b - a) * D"
    using assms(1) by simp
  then have n: "(b * D - a * D + D - 1) div D = b - a"
    using assms(1) by (simp only: div_mult_self1) simp
  have "map (\<lambda>k. a * D + k * D) [0..<b - a] = map (\<lambda>j. j * D) [a..<b]"
  proof -
    have "[a..<b] = map (\<lambda>k. a + k) [0..<b - a]"
      using assms(2) by (simp add: map_add_upt add.commute)
    then show ?thesis by (simp add: comp_def add_mult_distrib)
  qed
  then show ?thesis using assms(1) n by (simp add: arange_step_def)
qed

lemma between_rows_nz:
  assumes "b * D < k" "k < b * D + D"
  shows "k mod D \<noteq> (0 :: nat)"
proof -
  define r where "r = k - b * D"
  have r: "k = b * D + r" "0 < r" "r < D"
    using assms by (simp_all add: r_def)
  then show ?thesis by simp
qed

lemma map_add_upt_gen: "map (\<lambda>i. n + i) [a..<b] = [n + a..<n + b]"
  by (induction b) simp_all

lemma rows_length:
  "length (concat (map (\<lambda>j. map (\<lambda>i. j * D + i) [1..<D]) js)) = length js * (D - 1)"
  by (induction js) simp_all

lemma filter_nz_partial_row:
  assumes "0 < n" "n \<le> D"
  shows "filter (\<lambda>k. k mod D \<noteq> 0) [b * D..<b * D + n] = [b * D + 1..<b * D + n]"
proof -
  have "[b * D..<b * D + n] = b * D # [b * D + 1..<b * D + n]"
    using assms(1) by (simp add: upt_conv_Cons)
  moreover have "filter (\<lambda>k. k mod D \<noteq> 0) [b * D + 1..<b * D + n] = [b * D + 1..<b * D + n]"
  proof (rule filter_True, rule ballI)
    fix k assume "k \<in> set [b * D + 1..<b * D + n]"
    then have "b * D < k" "k < b * D + D" using assms(2) by auto
    then show "k mod D \<noteq> 0" by (rule between_rows_nz)
  qed
  ultimately show ?thesis by simp
qed

lemma filter_z_partial_row:
  assumes "n \<le> D"
  shows "filter (\<lambda>k. k mod D = 0) [b * D + 1..<b * D + n] = []"
proof (rule filter_False, rule ballI)
  fix k assume "k \<in> set [b * D + 1..<b * D + n]"
  then have "b * D < k" "k < b * D + D" using assms by auto
  then show "\<not> k mod D = 0" by (rule between_rows_nz)
qed

text \<open>The three index lists in closed form, with m = D div 2 and c = m * D + m.\<close>

lemma top_form:
  assumes "0 < D"
  shows "slice_to_neg (D div 2) (concat (map (\<lambda>j. map (\<lambda>i. j * D + i) [1..<D]) [1..<D div 2 + 1]))
           = filter (\<lambda>k. k mod D \<noteq> 0) [D..<(D div 2) * D + (D - D div 2)]"
proof (cases "D div 2 = 0")
  case True
  then show ?thesis by (simp add: slice_to_neg_def)
next
  case False
  define m where "m = D div 2"
  define f where "f = (\<lambda>j. map (\<lambda>i. j * D + i) [1..<D])"
  have m1: "1 \<le> m" using False by (simp add: m_def)
  have mD: "m \<le> D - 1" using assms by (simp add: m_def) 
  have split: "[1..<m + 1] = [1..<m] @ [m]" using m1 by simp
  define A where "A = concat (map f [1..<m])"
  have A: "A = filter (\<lambda>k. k mod D \<noteq> 0) [D..<m * D]"
    using rows_filter_nz[OF assms m1] by (simp add: A_def f_def)
  have "length A = length [1..<m] * (D - 1)"
    unfolding A_def f_def by (rule rows_length)
  then have lA: "length A = (m - 1) * (D - 1)" by simp
  have lf: "length (f m) = D - 1" by (simp add: f_def)
  have full: "concat (map f [1..<m + 1]) = A @ f m"
    using m1 by (simp add: A_def)
  obtain m' where m': "m = Suc m'"
    using m1 by (cases m) simp_all
  have "m * (D - 1) = (m - 1) * (D - 1) + (D - 1)"
    by (simp add: m')
  moreover have "L + (D - 1) - m = L + (D - 1 - m)" for L
    using mD by arith
  ultimately have n: "length (A @ f m) - m = length A + (D - 1 - m)"
    by (simp only: length_append lA lf)
  have "take (length (A @ f m) - m) (A @ f m) = A @ take (D - 1 - m) (f m)"
    by (simp only: n) simp
  moreover have "take (D - 1 - m) (f m) = [m * D + 1..<m * D + (D - m)]"
  proof -
    have "1 + (D - 1 - m) = D - m" "1 + (D - 1 - m) \<le> D"
      using mD assms by arith+
    then have "take (D - 1 - m) [1..<D] = [1..<D - m]"
      by (metis take_upt)
    then have "take (D - 1 - m) (f m) = map (\<lambda>i. m * D + i) [1..<D - m]"
      by (simp add: f_def take_map)
    also have "\<dots> = [m * D + 1..<m * D + (D - m)]"
      by (simp add: map_add_upt_gen)
    finally show ?thesis .
  qed
  moreover have "[m * D + 1..<m * D + (D - m)] = filter (\<lambda>k. k mod D \<noteq> 0) [m * D..<m * D + (D - m)]"
    using filter_nz_partial_row[of "D - m" D m] mD assms by simp
  moreover have "[D..<m * D + (D - m)] = [D..<m * D] @ [m * D..<m * D + (D - m)]"
  proof -
    have "D \<le> m * D" using m1 by simp
    then show ?thesis by (rule upt_add_eq_append)
  qed
  ultimately have "take (length (A @ f m) - m) (A @ f m)
      = filter (\<lambda>k. k mod D \<noteq> 0) [D..<m * D + (D - m)]"
    by (simp add: A)
  moreover have "slice_to_neg m X = take (length X - m) X" for X :: "nat list"
    using m1 by (simp add: slice_to_neg_def)
  ultimately have "slice_to_neg m (concat (map f [1..<m + 1]))
      = filter (\<lambda>k. k mod D \<noteq> 0) [D..<m * D + (D - m)]"
    by (simp only: full)
  then show ?thesis unfolding m_def f_def .
qed

lemma upt_split: "i \<le> j \<Longrightarrow> j \<le> k \<Longrightarrow> [i..<k] = [i..<j] @ [j..<k]"
  using upt_add_eq_append[of i j "k - j"] by simp

lemma half_less: "0 < D \<Longrightarrow> D div 2 < (D :: nat)"
  by simp

lemma center_less_row: "0 < D \<Longrightarrow> (D div 2) * D + D div 2 < (D div 2) * D + (D :: nat)"
  by simp

lemma next_row_le: "0 < D \<Longrightarrow> (D div 2) * D + D \<le> D * (D :: nat)"
proof -
  assume "0 < D"
  then have "Suc (D div 2) \<le> D" by simp
  then have "Suc (D div 2) * D \<le> D * D" by (rule mult_le_mono1)
  then show ?thesis by (simp add: add.commute)
qed

lemma bottom_form:
  assumes "0 < D"
  shows "drop (D div 2) (concat (map (\<lambda>j. map (\<lambda>i. j * D + i) [1..<D]) [D div 2..<D]))
           = filter (\<lambda>k. k mod D \<noteq> 0) [(D div 2) * D + D div 2 + 1..<D * D]"
proof -
  define m where "m = D div 2"
  define f where "f = (\<lambda>j. map (\<lambda>i. j * D + i) [1..<D])"
  have mD: "m < D" using assms by (simp add: m_def)
  define B where "B = concat (map f [Suc m..<D])"
  have B: "B = filter (\<lambda>k. k mod D \<noteq> 0) [Suc m * D..<D * D]"
    using rows_filter_nz[OF assms, of "Suc m" D] mD by (simp add: B_def f_def)
  have full: "concat (map f [m..<D]) = f m @ B"
    using mD by (simp add: upt_conv_Cons B_def)
  have lf: "length (f m) = D - 1" by (simp add: f_def)
  have "drop m (f m @ B) = drop m (f m) @ B"
    using mD by (simp add: lf)
  moreover have "drop m (f m) = [m * D + m + 1..<m * D + D]"
  proof -
    have "drop m (f m) = map (\<lambda>i. m * D + i) [1 + m..<D]"
      by (simp add: f_def drop_map)
    also have "\<dots> = [m * D + (1 + m)..<m * D + D]"
      by (rule map_add_upt_gen)
    finally show ?thesis by (simp add: add.commute add.left_commute)
  qed
  moreover have "filter (\<lambda>k. k mod D \<noteq> 0) [m * D + m + 1..<m * D + D] = [m * D + m + 1..<m * D + D]"
  proof (rule filter_True, rule ballI)
    fix k assume "k \<in> set [m * D + m + 1..<m * D + D]"
    then have "m * D < k" "k < m * D + D" by auto
    then show "k mod D \<noteq> 0" by (rule between_rows_nz)
  qed
  moreover have "[m * D + m + 1..<D * D] = [m * D + m + 1..<m * D + D] @ [Suc m * D..<D * D]"
  proof -
    have "m * D + m + 1 \<le> m * D + D" using mD by simp
    moreover have "m * D + D \<le> D * D"
      using next_row_le[OF assms] by (simp add: m_def)
    ultimately have "[m * D + m + 1..<D * D] = [m * D + m + 1..<m * D + D] @ [m * D + D..<D * D]"
      by (rule upt_split)
    then show ?thesis by (simp add: add.commute)
  qed
  ultimately have "drop m (concat (map f [m..<D]))
     = filter (\<lambda>k. k mod D \<noteq> 0) [m * D + m + 1..<D * D]"
    by (simp only: full filter_append B)
  then show ?thesis unfolding m_def f_def .
qed

lemma extra_form:
  assumes "0 < D"
  shows "map (\<lambda>j. j * D) [D div 2 + 1..<D]
           = filter (\<lambda>k. k mod D = 0) [(D div 2) * D + D div 2 + 1..<D * D]"
proof -
  define m where "m = D div 2"
  have mD: "m < D" using assms by (simp add: m_def)
  have "map (\<lambda>j. j * D) [Suc m..<D] = filter (\<lambda>k. k mod D = 0) [Suc m * D..<D * D]"
    using rows_filter_z[OF assms, of "Suc m" D] mD by simp
  moreover have "filter (\<lambda>k. k mod D = 0) [m * D + m + 1..<m * D + D] = []"
  proof (rule filter_False, rule ballI)
    fix k assume "k \<in> set [m * D + m + 1..<m * D + D]"
    then have "m * D < k" "k < m * D + D" by auto
    then show "\<not> k mod D = 0" by (rule between_rows_nz)
  qed
  moreover have "[m * D + m + 1..<D * D] = [m * D + m + 1..<m * D + D] @ [Suc m * D..<D * D]"
  proof -
    have "m * D + m + 1 \<le> m * D + D" using mD by simp
    moreover have "m * D + D \<le> D * D"
      using next_row_le[OF assms] by (simp add: m_def)
    ultimately have "[m * D + m + 1..<D * D] = [m * D + m + 1..<m * D + D] @ [m * D + D..<D * D]"
      by (rule upt_split)
    then show ?thesis by (simp add: add.commute)
  qed
  ultimately have "map (\<lambda>j. j * D) [m + 1..<D]
      = filter (\<lambda>k. k mod D = 0) [m * D + m + 1..<D * D]"
    by (simp only: filter_append append_Nil Suc_eq_plus1)
  then show ?thesis unfolding m_def .
qed

text \<open>What the constructor builds, for every positive D.\<close>

lemma init_fields:
  assumes "0 < D"
  shows "FTSliceDecoder_init indim D net =
     Inr \<lparr> decoder = \<lparr> in_dim = indim, main = net \<rparr>,
           center = (D div 2) * D + D div 2,
           extra = filter (\<lambda>k. k mod D = 0) [(D div 2) * D + D div 2 + 1..<D * D],
           all_eval = [0..<(D div 2) * D + D div 2 + 1]
                      @ filter (\<lambda>k. k mod D = 0) [(D div 2) * D + D div 2 + 1..<D * D],
           top_ix = filter (\<lambda>k. k mod D \<noteq> 0) [D..<(D div 2) * D + (D - D div 2)],
           bottom_rev = rev (filter (\<lambda>k. k mod D \<noteq> 0) [(D div 2) * D + D div 2 + 1..<D * D]),
           img_D = D,
           img_D2 = D div 2 \<rparr>"
proof -
  have "D div 2 + 1 \<le> D" using assms by simp
  then have "arange_step ((D div 2 + 1) * D) (D * D) D = Inr (map (\<lambda>j. j * D) [D div 2 + 1..<D])"
    by (rule arange_step_rows[OF assms])
  then have e: "arange_step ((D div 2 + 1) * D) (D ^ 2) D
       = Inr (filter (\<lambda>k. k mod D = 0) [(D div 2) * D + D div 2 + 1..<D * D])"
    by (simp only: extra_form[OF assms] power2_eq_square)
  show ?thesis
    unfolding FTSliceDecoder_init_def Let_def e arange_def ravel_meshgrid
      top_form[OF assms] bottom_form[OF assms]
    by simp
qed

lemma even_half: "even D \<Longrightarrow> D - D div 2 = D div (2 :: nat)"
  by (auto elim: evenE)

lemma odd_half: "odd D \<Longrightarrow> D - D div 2 = Suc (D div (2 :: nat))"
  by (auto elim: oddE)

lemma center_lt_square: "0 < D \<Longrightarrow> (D div 2) * D + D div 2 < D * (D :: nat)"
  using center_less_row[of D] next_row_le[of D] by linarith

lemma length_slice_to_neg:
  "length (slice_to_neg k xs) = (if k = 0 then 0 else length xs - k)"
  by (simp add: slice_to_neg_def)

lemma length_top_raw:
  "length (slice_to_neg m (concat (map (\<lambda>j. map (\<lambda>i. j * D + i) [1..<D]) [1..<m + 1])))
     = m * (D - 1) - m"
proof -
  define X where "X = concat (map (\<lambda>j. map (\<lambda>i. j * D + i) [1..<D]) [1..<m + 1])"
  have "length X = length [1..<m + 1] * (D - 1)"
    unfolding X_def by (rule rows_length)
  then have "length X = m * (D - 1)" by simp
  then have "length (slice_to_neg m X) = m * (D - 1) - m"
    by (cases "m = 0") (simp_all add: length_slice_to_neg)
  then show ?thesis unfolding X_def .
qed

lemma length_bottom_raw:
  "length (drop m (concat (map (\<lambda>j. map (\<lambda>i. j * D + i) [1..<D]) [m..<D])))
     = (D - m) * (D - 1) - m"
proof -
  have "length (concat (map (\<lambda>j. map (\<lambda>i. j * D + i) [1..<D]) [m..<D]))
          = length [m..<D] * (D - 1)"
    by (rule rows_length)
  then show ?thesis by simp
qed

lemma length_top_form:
  assumes "0 < D"
  shows "length (filter (\<lambda>k. k mod D \<noteq> 0) [D..<(D div 2) * D + (D - D div 2)])
           = (D div 2) * (D - 1) - D div 2"
  using length_top_raw[of "D div 2" D] by (simp only: top_form[OF assms])

lemma length_bottom_form:
  assumes "0 < D"
  shows "length (filter (\<lambda>k. k mod D \<noteq> 0) [(D div 2) * D + D div 2 + 1..<D * D])
           = (D - D div 2) * (D - 1) - D div 2"
  using length_bottom_raw[of "D div 2" D] by (simp only: bottom_form[OF assms])

subsection \<open>Scattered writes and the image that forward builds\<close>

lemma decode_result_rows:
  assumes "list_all (\<lambda>p. 3 \<le> length p) lattice"
    and "list_all (\<lambda>p. length p = in_dim (decoder self)) lattice"
  shows "snd (decode self lattice) = Inr (map (decode_row (decoder self)) lattice)"
  using decode_result[OF assms] by (simp add: decode_row_def)

lemma fold_upd_length:
  "length (fold (\<lambda>(i, v) acc. acc[i := Some v]) ps xs) = length xs"
  by (induction ps arbitrary: xs) auto

lemma fold_upd_other:
  "k \<notin> set idx \<Longrightarrow> fold (\<lambda>(i, v) acc. acc[i := Some v]) (zip idx vals) xs ! k = xs ! k"
proof (induction idx arbitrary: vals xs)
  case Nil
  then show ?case by simp
next
  case (Cons i idx)
  then show ?case by (cases vals) auto
qed

lemma fold_upd_hit:
  "distinct idx \<Longrightarrow> length vals = length idx \<Longrightarrow> n < length idx \<Longrightarrow> idx ! n < length xs \<Longrightarrow>
     fold (\<lambda>(i, v) acc. acc[i := Some v]) (zip idx vals) xs ! (idx ! n) = Some (vals ! n)"
proof (induction idx arbitrary: vals xs n)
  case Nil
  then show ?case by simp
next
  case (Cons i idx)
  obtain v vs where vals: "vals = v # vs"
    using Cons.prems(2) by (cases vals) auto
  show ?case
  proof (cases n)
    case 0
    have "i \<notin> set idx" using Cons.prems(1) by simp
    then have "fold (\<lambda>(i, v) acc. acc[i := Some v]) (zip idx vs) (xs[i := Some v]) ! i
                 = xs[i := Some v] ! i"
      by (rule fold_upd_other)
    then show ?thesis using Cons.prems(4) 0 by (simp add: vals)
  next
    case (Suc n')
    have "fold (\<lambda>(i, v) acc. acc[i := Some v]) (zip idx vs) (xs[i := Some v]) ! (idx ! n')
            = Some (vs ! n')"
      using Cons.prems Suc by (intro Cons.IH) (simp_all add: vals)
    then show ?thesis by (simp add: vals Suc)
  qed
qed

lemma scatter_ok:
  "list_all (\<lambda>i. i < length xs) idx \<Longrightarrow> length vals = length idx \<Longrightarrow>
     scatter xs idx vals = Inr (fold (\<lambda>(i, v) acc. acc[i := Some v]) (zip idx vals) xs)"
  by (simp add: scatter_def)

lemma gather_ok:
  "list_all (\<lambda>i. i < length xs) idx \<Longrightarrow> gather xs idx = Inr (map (\<lambda>i. xs ! i) idx)"
  by (simp add: gather_def)

text \<open>forward1 with all checks passing\<close>

lemma forward1_unfold:
  assumes A: "list_all (\<lambda>i. i < length lattice) (all_eval self)"
    and B: "list_all (\<lambda>i. i < length lattice) (bottom_rev self)"
    and T: "list_all (\<lambda>t. t < length (all_eval self)) (top_ix self)"
    and L: "length (top_ix self) = length (bottom_rev self)"
    and r3: "list_all (\<lambda>p. 3 \<le> length p) lattice"
    and rd: "list_all (\<lambda>p. length p = in_dim (decoder self)) lattice"
  shows "forward1 self lattice =
     Inr (fold (\<lambda>(i, v) acc. acc[i := Some v])
            (zip (bottom_rev self)
               (map (\<lambda>t. case decode_row (decoder self) (lattice ! (all_eval self ! t)) of
                             (re, im) \<Rightarrow> re + im) (top_ix self)))
          (fold (\<lambda>(i, v) acc. acc[i := Some v])
            (zip (all_eval self)
               (map (\<lambda>i. case decode_row (decoder self) (lattice ! i) of
                             (re, im) \<Rightarrow> re - im) (all_eval self)))
            (replicate (length lattice) None)))"
proof -
  define sub where "sub = map (\<lambda>i. lattice ! i) (all_eval self)"
  define top_half where "top_half = map (decode_row (decoder self)) sub"
  define image1 where "image1 = fold (\<lambda>(i, v) acc. acc[i := Some v])
            (zip (all_eval self) (map (\<lambda>(re, im). re - im) top_half))
            (replicate (length lattice) None)"
  have g1: "gather lattice (all_eval self) = Inr sub"
    unfolding sub_def by (rule gather_ok[OF A])
  have s3: "list_all (\<lambda>p. 3 \<le> length p) sub"
    using A r3 by (auto simp: sub_def list_all_iff)
  have sd: "list_all (\<lambda>p. length p = in_dim (decoder self)) sub"
    using A rd by (auto simp: sub_def list_all_iff)
  have d: "snd (decode self sub) = Inr top_half"
    unfolding top_half_def by (rule decode_result_rows[OF s3 sd])
  have lth: "length top_half = length (all_eval self)"
    by (simp add: top_half_def sub_def)
  have sc1: "scatter (replicate (length lattice) None) (all_eval self)
               (map (\<lambda>(re, im). re - im) top_half) = Inr image1"
    unfolding image1_def using A by (intro scatter_ok) (simp_all add: lth)
  have li: "length image1 = length lattice"
    by (simp add: image1_def fold_upd_length)
  define th where "th = map (\<lambda>t. top_half ! t) (top_ix self)"
  define vals2 where "vals2 = map (\<lambda>(re, im). re + im) th"
  have g2: "gather top_half (top_ix self) = Inr th"
    unfolding th_def using T by (intro gather_ok) (simp add: lth)
  have sc2: "scatter image1 (bottom_rev self) vals2
             = Inr (fold (\<lambda>(i, v) acc. acc[i := Some v]) (zip (bottom_rev self) vals2) image1)"
    using B L by (intro scatter_ok) (simp_all add: li vals2_def th_def)
  have f: "forward1 self lattice
      = Inr (fold (\<lambda>(i, v) acc. acc[i := Some v]) (zip (bottom_rev self) vals2) image1)"
    by (simp add: forward1_def Let_def g1 d sc1 g2 vals2_def[symmetric] sc2)
  have v1: "map (\<lambda>(re, im). re - im) top_half
       = map (\<lambda>i. case decode_row (decoder self) (lattice ! i) of (re, im) \<Rightarrow> re - im)
           (all_eval self)"
    by (simp add: top_half_def sub_def)
  have v2: "vals2
       = map (\<lambda>t. case decode_row (decoder self) (lattice ! (all_eval self ! t)) of
                             (re, im) \<Rightarrow> re + im) (top_ix self)"
    using T by (auto simp: vals2_def th_def top_half_def sub_def list_all_iff)
  show ?thesis
    unfolding f image1_def v1 v2 ..
qed

lemma even_index_facts:
  assumes "even D" and "0 < D" and "FTSliceDecoder_init indim D net = Inr self"
  shows "decoder self = \<lparr> in_dim = indim, main = net \<rparr>"
    and "center self = (D div 2) * D + D div 2"
    and "set (all_eval self) \<inter> set (bottom_rev self) = {}"
    and "set (all_eval self) \<union> set (bottom_rev self) = {0..<D * D}"
    and "distinct (all_eval self)" and "distinct (bottom_rev self)" and "distinct (top_ix self)"
    and "length (top_ix self) = length (bottom_rev self)"
    and "\<forall>t \<in> set (top_ix self). t < center self \<and> t < length (all_eval self) \<and> all_eval self ! t = t"
proof -
  define c where "c = (D div 2) * D + D div 2"
  have s: "decoder self = \<lparr> in_dim = indim, main = net \<rparr>"
          "center self = c"
          "all_eval self = [0..<c + 1] @ filter (\<lambda>k. k mod D = 0) [c + 1..<D * D]"
          "top_ix self = filter (\<lambda>k. k mod D \<noteq> 0) [D..<(D div 2) * D + (D - D div 2)]"
          "bottom_rev self = rev (filter (\<lambda>k. k mod D \<noteq> 0) [c + 1..<D * D])"
    using assms(3) unfolding init_fields[OF assms(2)] c_def by auto
  have cN: "c < D * D" unfolding c_def by (rule center_lt_square[OF assms(2)])
  show "decoder self = \<lparr> in_dim = indim, main = net \<rparr>" by (rule s(1))
  show "center self = (D div 2) * D + D div 2" by (simp add: s(2) c_def)
  show "set (all_eval self) \<inter> set (bottom_rev self) = {}"
    by (auto simp: s)
  show "set (all_eval self) \<union> set (bottom_rev self) = {0..<D * D}"
    using cN by (auto simp: s)
  show "distinct (all_eval self)" "distinct (bottom_rev self)" "distinct (top_ix self)"
    by (auto simp: s)
  have lt: "length (top_ix self) = (D div 2) * (D - 1) - D div 2"
    by (simp only: s(4) length_top_form[OF assms(2)])
  have lb: "length (bottom_rev self) = (D - D div 2) * (D - 1) - D div 2"
    by (simp only: s(5) c_def length_rev length_bottom_form[OF assms(2)])
  show "length (top_ix self) = length (bottom_rev self)"
    by (simp only: lt lb even_half[OF assms(1)])
  show "\<forall>t \<in> set (top_ix self). t < center self \<and> t < length (all_eval self) \<and> all_eval self ! t = t"
  proof
    fix t assume "t \<in> set (top_ix self)"
    then have "t < c"
      by (simp add: s(4) even_half[OF assms(1)] c_def)
    then show "t < center self \<and> t < length (all_eval self) \<and> all_eval self ! t = t"
      by (simp add: s(2,3) nth_append)
  qed
qed

text \<open>The image that forward1 returns, pixel by pixel.\<close>

lemma forward1_pixels:
  assumes "even D" and "0 < D" and "FTSliceDecoder_init indim D net = Inr self"
    and len: "length lattice = D * D"
    and rd: "list_all (\<lambda>p. length p = indim) lattice"
    and i3: "3 \<le> indim"
  shows "\<exists>R. forward1 self lattice = Inr R \<and> length R = D * D
     \<and> (\<forall>i \<in> set (all_eval self).
           R ! i = Some (case decode_row (decoder self) (lattice ! i) of (re, im) \<Rightarrow> re - im))
     \<and> (\<forall>n < length (bottom_rev self).
           R ! (bottom_rev self ! n)
             = Some (case decode_row (decoder self) (lattice ! (top_ix self ! n)) of
                       (re, im) \<Rightarrow> re + im))"
proof -
  note f = even_index_facts[OF assms(1,2,3)]
  let ?A = "all_eval self" and ?B = "bottom_rev self" and ?T = "top_ix self"
  define v1 where "v1 =
     map (\<lambda>i. case decode_row (decoder self) (lattice ! i) of (re, im) \<Rightarrow> re - im) ?A"
  define v2 where "v2 =
     map (\<lambda>t. case decode_row (decoder self) (lattice ! (?A ! t)) of (re, im) \<Rightarrow> re + im) ?T"
  define R1 where "R1 = fold (\<lambda>(i, v) acc. acc[i := Some v]) (zip ?A v1)
                          (replicate (length lattice) None)"
  define R where "R = fold (\<lambda>(i, v) acc. acc[i := Some v]) (zip ?B v2) R1"
  have A: "list_all (\<lambda>i. i < length lattice) ?A"
    using f(4) by (auto simp: list_all_iff len)
  have B: "list_all (\<lambda>i. i < length lattice) ?B"
    using f(4) by (auto simp: list_all_iff len)
  have T: "list_all (\<lambda>t. t < length ?A) ?T"
    using f(9) by (simp add: list_all_iff)
  have r3: "list_all (\<lambda>p. 3 \<le> length p) lattice"
    using rd i3 by (simp add: list_all_iff)
  have rd': "list_all (\<lambda>p. length p = in_dim (decoder self)) lattice"
    using rd by (simp add: f(1))
  have fw: "forward1 self lattice = Inr R"
    unfolding R_def R1_def v1_def v2_def
    by (rule forward1_unfold[OF A B T f(8) r3 rd'])
  have lR1: "length R1 = D * D" by (simp add: R1_def fold_upd_length len)
  have lR: "length R = D * D" by (simp add: R_def fold_upd_length lR1)
  have pA: "R ! i = Some (case decode_row (decoder self) (lattice ! i) of (re, im) \<Rightarrow> re - im)"
    if i: "i \<in> set ?A" for i
  proof -
    obtain a where a: "a < length ?A" "?A ! a = i"
      using i by (auto simp: in_set_conv_nth)
    have "i \<notin> set ?B" using i f(3) by auto
    then have 1: "R ! i = R1 ! i"
      unfolding R_def by (rule fold_upd_other)
    have 2: "R1 ! (?A ! a) = Some (v1 ! a)"
      unfolding R1_def using f(5) a(1) A
      by (intro fold_upd_hit) (simp_all add: v1_def list_all_iff)
    show ?thesis using 1 2 a by (simp add: v1_def)
  qed
  have pB: "R ! (?B ! n)
        = Some (case decode_row (decoder self) (lattice ! (?T ! n)) of (re, im) \<Rightarrow> re + im)"
    if n: "n < length ?B" for n
  proof -
    have "R ! (?B ! n) = Some (v2 ! n)"
      unfolding R_def using f(6) n B
      by (intro fold_upd_hit) (simp_all add: v2_def f(8) lR1 list_all_iff len)
    moreover have "?A ! (?T ! n) = ?T ! n"
      using f(9) n f(8) by simp
    ultimately show ?thesis using n f(8) by (simp add: v2_def)
  qed
  show ?thesis
    using fw lR pA pB by blast
qed

lemma decode_row_hermitian:
  assumes "main d (negate3 p) = (fst (main d p), - snd (main d p))"
  shows "decode_row d p = main d p"
  using assms by (simp add: decode_row_def)

lemma matmul_rows3:
  assumes "list_all (\<lambda>r. length r = 3) A" and "is3x3 B"
  shows "\<exists>X. matmul A B = Inr X \<and> length X = length A \<and> list_all (\<lambda>r. length r = 3) X"
proof -
  obtain b0 b1 b2 where B: "B = [b0, b1, b2]"
    using assms(2) len3_cases unfolding is3x3_def by blast
  have lb: "length b0 = 3" "length b1 = 3" "length b2 = 3"
    using assms(2) by (simp_all add: is3x3_def B)
  show ?thesis
    using assms(1) by (simp add: matmul_def B lb list_all_iff)
qed

lemma map_err_ok:
  assumes "\<And>x. x \<in> set xs \<Longrightarrow> \<exists>y. f x = Inr y \<and> P y"
  shows "\<exists>ys. map_err f xs = Inr ys \<and> length ys = length xs \<and> list_all P ys"
  using assms
proof (induction xs)
  case Nil
  then show ?case by simp
next
  case (Cons x xs)
  obtain y where y: "f x = Inr y" "P y" using Cons.prems by auto
  obtain ys where ys: "map_err f xs = Inr ys" "length ys = length xs" "list_all P ys"
    using Cons.IH Cons.prems by auto
  show ?case by (simp add: y ys)
qed

lemma forward1_total:
  assumes "even D" and "0 < D" and "FTSliceDecoder_init indim D net = Inr self"
    and "length lattice = D * D"
    and "list_all (\<lambda>p. length p = indim) lattice"
    and "3 \<le> indim"
  shows "\<exists>R. forward1 self lattice = Inr R \<and> length R = D * D \<and> None \<notin> set R"
proof -
  note f = even_index_facts[OF assms(1,2,3)]
  obtain R where R: "forward1 self lattice = Inr R" "length R = D * D"
      "\<forall>i \<in> set (all_eval self).
           R ! i = Some (case decode_row (decoder self) (lattice ! i) of (re, im) \<Rightarrow> re - im)"
      "\<forall>n < length (bottom_rev self).
           R ! (bottom_rev self ! n)
             = Some (case decode_row (decoder self) (lattice ! (top_ix self ! n)) of
                       (re, im) \<Rightarrow> re + im)"
    using forward1_pixels[OF assms] by blast
  have "R ! k \<noteq> None" if "k < D * D" for k
  proof -
    have "k \<in> set (all_eval self) \<union> set (bottom_rev self)"
      using that by (simp add: f(4))
    then show ?thesis
    proof
      assume "k \<in> set (all_eval self)"
      then show ?thesis using R(3) by auto
    next
      assume "k \<in> set (bottom_rev self)"
      then obtain n where "n < length (bottom_rev self)" "bottom_rev self ! n = k"
        by (auto simp: in_set_conv_nth)
      then show ?thesis using R(4) by auto
    qed
  qed
  then have "None \<notin> set R"
    by (auto simp: in_set_conv_nth R(2))
  then show ?thesis using R(1,2) by blast
qed

lemma cat_z_ok:
  assumes "list_all (list_all (\<lambda>p. length p = 3)) x"
    and "length z = length x" and "list_all (\<lambda>r. length r = 1) z"
  shows "\<exists>xz. cat_z x z = Inr xz \<and> length xz = length x
          \<and> (\<forall>n < length x. length (xz ! n) = length (x ! n)
                 \<and> list_all (\<lambda>p. length p = 4) (xz ! n))"
proof -
  have lc: "length (concat z) = length z"
    using length_concat_rect[OF assms(3)] by simp
  define xz where "xz = map2 (\<lambda>m v. map (\<lambda>p. p @ [v]) m) x (concat z)"
  have c: "cat_z x z = Inr xz"
    using assms(1,2) lc by (simp add: cat_z_def xz_def)
  have l: "length xz = length x" by (simp add: xz_def lc assms(2))
  have "length (xz ! n) = length (x ! n) \<and> list_all (\<lambda>p. length p = 4) (xz ! n)"
    if "n < length x" for n
  proof -
    have "x ! n \<in> set x" using that by simp
    then have "list_all (\<lambda>p. length p = 3) (x ! n)"
      using assms(1) by (simp add: list_all_iff)
    then show ?thesis
      using that by (simp add: xz_def lc assms(2) list_all_iff)
  qed
  then show ?thesis using c l by blast
qed

lemma init_hetvae4: "HetVAE_init (VAE_lattice 4 4) 4 1 net = Inr (hetvae4 net)"
  by (simp add: HetVAE_init_def hetvae4_def init_4)

lemma lattice4_rows: "length (VAE_lattice 4 4) = 16 \<and> list_all (\<lambda>p. length p = 3) (VAE_lattice 4 4)"
  by (simp add: VAE_lattice_4x4)

lemma scale2_not_orthonormal: "is3x3 scale2 \<and> \<not> orthonormal3 scale2"
  by (simp add: orthonormal3_def is3x3_def scale2_def mat_prod3_def ident3_def upt_rec)

subsection \<open>The lattice of VAE.__init__ is symmetric under point reflection\<close>

lemma nth_concat_rect:
  "list_all (\<lambda>r. length r = n) rows \<Longrightarrow> k < length rows * n \<Longrightarrow>
     concat rows ! k = rows ! (k div n) ! (k mod n)"
proof (induction rows arbitrary: k)
  case Nil
  then show ?case by simp
next
  case (Cons r rows)
  have n: "0 < n" using Cons.prems(2) by (cases n) simp_all
  have lr: "length r = n" using Cons.prems(1) by simp
  show ?case
  proof (cases "k < n")
    case True
    then show ?thesis by (simp add: nth_append lr)
  next
    case False
    then have kn: "n \<le> k" by simp
    have "k - n < length rows * n" using Cons.prems(2) kn by simp
    then have "concat rows ! (k - n) = rows ! ((k - n) div n) ! ((k - n) mod n)"
      using Cons.IH Cons.prems(1) by simp
    moreover have "k div n = Suc ((k - n) div n)" using n kn by (rule le_div_geq)
    moreover have "k mod n = (k - n) mod n" using kn by (rule le_mod_geq)
    ultimately show ?thesis using False by (simp add: nth_append lr)
  qed
qed

lemma VAE_lattice_nth:
  assumes "k < ny * nx"
  shows "VAE_lattice nx ny ! k = [lin nx (k mod nx), lin ny (k div nx), 0]"
proof -
  have nx: "0 < nx" using assms by (cases nx) simp_all
  have d: "k div nx < ny" using assms nx by (simp add: less_mult_imp_div_less)
  have m: "k mod nx < nx" using nx by simp
  define x0 where "x0 = map (\<lambda>y. linspace_open nx) (linspace_open ny)"
  define x1 where "x1 = map (\<lambda>y. map (\<lambda>x. y) (linspace_open nx)) (linspace_open ny)"
  have l0: "list_all (\<lambda>r. length r = nx) x0" "length x0 = ny"
    by (simp_all add: x0_def linspace_open_def list_all_iff)
  have l1: "list_all (\<lambda>r. length r = nx) x1" "length x1 = ny"
    by (simp_all add: x1_def linspace_open_def list_all_iff)
  have c0: "concat x0 ! k = lin nx (k mod nx)"
    using nth_concat_rect[OF l0(1), of k] assms d m
    by (simp add: l0(2) x0_def linspace_open_def lin_def)
  have c1: "concat x1 ! k = lin ny (k div nx)"
    using nth_concat_rect[OF l1(1), of k] assms d m
    by (simp add: l1(2) x1_def linspace_open_def lin_def)
  have len0: "length (concat x0) = ny * nx"
    using length_concat_rect[OF l0(1)] by (simp add: l0(2))
  have len1: "length (concat x1) = ny * nx"
    using length_concat_rect[OF l1(1)] by (simp add: l1(2))
  have "VAE_lattice nx ny = map (\<lambda>(a, b, c). [a, b, c])
           (zip (concat x0) (zip (concat x1) (replicate (ny * nx) 0)))"
    by (simp add: VAE_lattice_def meshgrid_def x0_def x1_def)
  then show ?thesis
    using assms by (simp add: len0 len1 c0 c1)
qed

lemma length_VAE_lattice: "length (VAE_lattice nx ny) = ny * nx"
proof -
  have "length (concat (map (\<lambda>y. linspace_open nx) (linspace_open ny))) = ny * nx"
    using length_concat_rect[of nx "map (\<lambda>y. linspace_open nx) (linspace_open ny)"]
    by (simp add: linspace_open_def list_all_iff)
  moreover have "length (concat (map (\<lambda>y. map (\<lambda>x. y) (linspace_open nx)) (linspace_open ny))) = ny * nx"
    using length_concat_rect[of nx "map (\<lambda>y. map (\<lambda>x. y) (linspace_open nx)) (linspace_open ny)"]
    by (simp add: linspace_open_def list_all_iff)
  ultimately show ?thesis
    by (simp add: VAE_lattice_def meshgrid_def)
qed

lemma lin_reflect:
  assumes "0 < i" "i < n"
  shows "lin n (n - i) = - lin n i"
proof -
  have "real (n - i) = real n - real i" using assms by (simp add: of_nat_diff)
  moreover have "real n \<noteq> 0" using assms by simp
  ultimately show ?thesis by (simp add: lin_def field_simps)
qed

lemma even_center_double:
  assumes "even D"
  shows "((D div 2) * D + D div 2) + ((D div 2) * D + D div 2) = D * D + (D :: nat)"
proof -
  obtain m where m: "D = 2 * m" using assms by (auto elim: evenE)
  show ?thesis by (simp add: m algebra_simps)
qed

lemma rev_upt_reflect:
  assumes "c + c = X + D" and "D < c"
  shows "rev [c + 1..<X] = map (\<lambda>k. (X + D) - k) [D + 1..<(c :: nat)]"
proof (rule nth_equalityI)
  show "length (rev [c + 1..<X]) = length (map (\<lambda>k. (X + D) - k) [D + 1..<c])"
    using assms by simp
next
  fix i assume "i < length (rev [c + 1..<X])"
  then have i: "i < X - (c + 1)" by simp
  then have "rev [c + 1..<X] ! i = [c + 1..<X] ! (X - (c + 1) - Suc i)"
    by (simp add: rev_nth)
  also have "\<dots> = (c + 1) + (X - (c + 1) - Suc i)"
    using i by (intro nth_upt) simp
  also have "\<dots> = (X + D) - (D + 1 + i)"
    using i assms by simp
  also have "\<dots> = map (\<lambda>k. (X + D) - k) [D + 1..<c] ! i"
    using i assms by simp
  finally show "rev [c + 1..<X] ! i = map (\<lambda>k. (X + D) - k) [D + 1..<c] ! i" .
qed

lemma mod_reflect:
  assumes "D dvd S" and "k \<le> S"
  shows "(S - k) mod D \<noteq> 0 \<longleftrightarrow> k mod D \<noteq> (0 :: nat)"
proof -
  have "D dvd (S - k) \<longleftrightarrow> D dvd k"
    using assms by (metis dvd_diffD1 dvd_diff_nat diff_diff_cancel)
  then show ?thesis by (simp add: mod_eq_0_iff_dvd)
qed

lemma bottom_is_reflected_top:
  assumes "even D" and "0 < D"
  shows "rev (filter (\<lambda>k. k mod D \<noteq> 0) [(D div 2) * D + D div 2 + 1..<D * D])
       = map (\<lambda>k. (D * D + D) - k)
           (filter (\<lambda>k. k mod D \<noteq> 0) [D..<(D div 2) * D + (D - D div 2)])"
proof -
  define c where "c = (D div 2) * D + D div 2"
  define S where "S = D * D + D"
  have cc: "c + c = D * D + D" unfolding c_def by (rule even_center_double[OF assms(1)])
  have m1: "1 \<le> D div 2" using assms by (auto elim: evenE)
  then have "D \<le> (D div 2) * D" by simp
  then have Dc: "D < c" using m1 unfolding c_def by linarith
  have dv: "D dvd S" by (simp add: S_def)
  have r: "rev [c + 1..<D * D] = map (\<lambda>k. S - k) [D + 1..<c]"
    unfolding S_def by (rule rev_upt_reflect[OF cc Dc])
  have "rev (filter (\<lambda>k. k mod D \<noteq> 0) [c + 1..<D * D])
          = filter (\<lambda>k. k mod D \<noteq> 0) (map (\<lambda>k. S - k) [D + 1..<c])"
    by (simp only: rev_filter r)
  also have "\<dots> = map (\<lambda>k. S - k) (filter (\<lambda>k. (S - k) mod D \<noteq> 0) [D + 1..<c])"
    by (simp add: filter_map comp_def)
  also have "filter (\<lambda>k. (S - k) mod D \<noteq> 0) [D + 1..<c] = filter (\<lambda>k. k mod D \<noteq> 0) [D + 1..<c]"
  proof (rule filter_cong[OF refl])
    fix k assume "k \<in> set [D + 1..<c]"
    then have "k \<le> S" using cc by (simp add: S_def)
    then show "((S - k) mod D \<noteq> 0) = (k mod D \<noteq> 0)" by (rule mod_reflect[OF dv])
  qed
  also have "filter (\<lambda>k. k mod D \<noteq> 0) [D + 1..<c] = filter (\<lambda>k. k mod D \<noteq> 0) [D..<c]"
    using Dc by (simp add: upt_conv_Cons)
  finally have "rev (filter (\<lambda>k. k mod D \<noteq> 0) [c + 1..<D * D])
          = map (\<lambda>k. S - k) (filter (\<lambda>k. k mod D \<noteq> 0) [D..<c])" .
  moreover have "(D div 2) * D + (D - D div 2) = c"
    by (simp only: even_half[OF assms(1)] c_def)
  ultimately show ?thesis by (simp only: c_def[symmetric] S_def)
qed

lemma reflect_div_mod:
  assumes "D < t" and "t < D * D" and "t mod D \<noteq> (0 :: nat)"
  shows "(D * D + D - t) mod D = D - t mod D"
    and "(D * D + D - t) div D = D - t div D"
    and "0 < t div D" and "t div D < D" and "0 < t mod D" and "t mod D < D"
    and "D * D + D - t < D * D"
proof -
  define i where "i = t mod D"
  define j where "j = t div D"
  have D: "0 < D" using assms(2) by (cases D) simp_all
  have t: "t = j * D + i" by (simp add: i_def j_def)
  have i: "0 < i" "i < D" using assms(3) D by (simp_all add: i_def)
  have jD: "j < D" using assms(2) D by (simp add: j_def less_mult_imp_div_less)
  have j0: "0 < j" using assms(1) D by (simp add: j_def div_greater_zero_iff)
  have "(D - j) * D + j * D = D * D"
    using jD by (simp add: add_mult_distrib[symmetric])
  then have e: "D * D + D - t = (D - i) + (D - j) * D"
    using i by (simp add: t)
  have "(D * D + D - t) mod D = (D - i) mod D"
    by (simp only: e mod_mult_self1)
  then show "(D * D + D - t) mod D = D - t mod D"
    using i by (simp add: i_def)
  have "(D * D + D - t) div D = (D - j) + (D - i) div D"
    using D by (simp only: e div_mult_self1)
  then show "(D * D + D - t) div D = D - t div D"
    using i by (simp add: i_def j_def)
  show "0 < t div D" "t div D < D" "0 < t mod D" "t mod D < D"
    using j0 jD i by (simp_all add: i_def j_def)
  have "0 < D * D" using D by simp
  then show "D * D + D - t < D * D" using assms(1) by arith
qed

lemma VAE_lattice_reflect:
  assumes "D < t" and "t < D * D" and "t mod D \<noteq> 0"
  shows "VAE_lattice D D ! t = negate3 (VAE_lattice D D ! (D * D + D - t))"
proof -
  note r = reflect_div_mod[OF assms]
  have a: "VAE_lattice D D ! t = [lin D (t mod D), lin D (t div D), 0]"
    by (rule VAE_lattice_nth[OF assms(2)])
  have b: "VAE_lattice D D ! (D * D + D - t)
             = [lin D (D - t mod D), lin D (D - t div D), 0]"
    using VAE_lattice_nth[OF r(7)] by (simp only: r(1,2))
  have "lin D (D - t mod D) = - lin D (t mod D)" by (rule lin_reflect[OF r(5,6)])
  moreover have "lin D (D - t div D) = - lin D (t div D)" by (rule lin_reflect[OF r(3,4)])
  ultimately show ?thesis by (simp add: a b negate3_def)
qed

lemma VAE_lattice_pairing:
  assumes "even D" and "0 < D" and "FTSliceDecoder_init indim D net = Inr self"
  shows "map (\<lambda>t. VAE_lattice D D ! t) (top_ix self)
           = map (\<lambda>b. negate3 (VAE_lattice D D ! b)) (bottom_rev self)"
proof -
  define c where "c = (D div 2) * D + D div 2"
  have s: "top_ix self = filter (\<lambda>k. k mod D \<noteq> 0) [D..<(D div 2) * D + (D - D div 2)]"
          "bottom_rev self = rev (filter (\<lambda>k. k mod D \<noteq> 0) [c + 1..<D * D])"
    using assms(3) unfolding init_fields[OF assms(2)] c_def by auto
  have b: "bottom_rev self = map (\<lambda>k. (D * D + D) - k) (top_ix self)"
    unfolding s c_def by (rule bottom_is_reflected_top[OF assms(1,2)])
  have cN: "c < D * D" unfolding c_def by (rule center_lt_square[OF assms(2)])
  have "VAE_lattice D D ! t = negate3 (VAE_lattice D D ! (D * D + D - t))"
    if t: "t \<in> set (top_ix self)" for t
  proof -
    have "D \<le> t" "t < c" "t mod D \<noteq> 0"
      using t by (simp_all add: s(1) even_half[OF assms(1)] c_def)
    moreover have "t \<noteq> D" using \<open>t mod D \<noteq> 0\<close> by auto
    ultimately have "D < t" "t < D * D" "t mod D \<noteq> 0" using cN by simp_all
    then show ?thesis by (rule VAE_lattice_reflect)
  qed
  then show ?thesis by (simp add: b comp_def)
qed

subsection \<open>Hermitian decoders\<close>

lemma hermitian_pixels:
  assumes "even D" and "0 < D" and "FTSliceDecoder_init indim D net = Inr self"
    and len: "length lattice = D * D"
    and "list_all (\<lambda>p. length p = indim) lattice"
    and "3 \<le> indim"
    and herm: "list_all (\<lambda>p. net (negate3 p) = (fst (net p), - snd (net p))) lattice"
    and pair: "map (\<lambda>t. lattice ! t) (top_ix self)
                 = map (\<lambda>b. negate3 (lattice ! b)) (bottom_rev self)"
  shows "\<exists>R. forward1 self lattice = Inr R \<and> length R = D * D
           \<and> (\<forall>k < D * D. R ! k = Some (case net (lattice ! k) of (re, im) \<Rightarrow> re - im))"
proof -
  note f = even_index_facts[OF assms(1,2,3)]
  have main: "main (decoder self) = net" by (simp add: f(1))
  obtain R where R: "forward1 self lattice = Inr R" "length R = D * D"
      "\<forall>i \<in> set (all_eval self).
           R ! i = Some (case decode_row (decoder self) (lattice ! i) of (re, im) \<Rightarrow> re - im)"
      "\<forall>n < length (bottom_rev self).
           R ! (bottom_rev self ! n)
             = Some (case decode_row (decoder self) (lattice ! (top_ix self ! n)) of
                       (re, im) \<Rightarrow> re + im)"
    using forward1_pixels[OF assms(1,2,3) len assms(5,6)] by blast
  have hk: "net (negate3 (lattice ! k)) = (fst (net (lattice ! k)), - snd (net (lattice ! k)))"
    if "k < D * D" for k
  proof -
    have "lattice ! k \<in> set lattice" using that len by simp
    then show ?thesis using herm by (simp add: list_all_iff)
  qed
  have h: "decode_row (decoder self) (lattice ! k) = net (lattice ! k)" if "k < D * D" for k
    using decode_row_hermitian[of "decoder self" "lattice ! k"] hk[OF that]
    by (simp add: main)
  have "R ! k = Some (case net (lattice ! k) of (re, im) \<Rightarrow> re - im)" if k: "k < D * D" for k
  proof -
    have "k \<in> set (all_eval self) \<union> set (bottom_rev self)"
      using k by (simp add: f(4))
    then show ?thesis
    proof
      assume "k \<in> set (all_eval self)"
      then have "R ! k = Some (case decode_row (decoder self) (lattice ! k) of (re, im) \<Rightarrow> re - im)"
        using R(3) by blast
      then show ?thesis by (simp only: h[OF k])
    next
      assume "k \<in> set (bottom_rev self)"
      then obtain n where n: "n < length (bottom_rev self)" "bottom_rev self ! n = k"
        by (auto simp: in_set_conv_nth)
      define t where "t = top_ix self ! n"
      have tn: "n < length (top_ix self)" using n(1) f(8) by simp
      then have "t \<in> set (top_ix self)" by (simp add: t_def)
      then have "t < center self" using f(9) by blast
      then have tD: "t < D * D"
        using center_lt_square[OF assms(2)] by (simp add: f(2))
      have "map (\<lambda>t. lattice ! t) (top_ix self) ! n
              = map (\<lambda>b. negate3 (lattice ! b)) (bottom_rev self) ! n"
        by (simp only: pair)
      then have pt: "lattice ! t = negate3 (lattice ! k)"
        using n tn by (simp add: t_def)
      have "R ! k = Some (case decode_row (decoder self) (lattice ! t) of (re, im) \<Rightarrow> re + im)"
        using R(4) n by (auto simp: t_def)
      also have "\<dots> = Some (case net (lattice ! t) of (re, im) \<Rightarrow> re + im)"
        by (simp only: h[OF tD])
      also have "\<dots> = Some (case net (negate3 (lattice ! k)) of (re, im) \<Rightarrow> re + im)"
        by (simp only: pt)
      also have "\<dots> = Some (case net (lattice ! k) of (re, im) \<Rightarrow> re - im)"
        by (simp add: hk[OF k] split: prod.splits)
      finally show ?thesis .
    qed
  qed
  then show ?thesis using R(1,2) by blast
qed

lemma VAE_lattice_rows3: "list_all (\<lambda>p. length p = 3) (VAE_lattice nx ny)"
proof -
  have "length (VAE_lattice nx ny ! k) = 3" if "k < length (VAE_lattice nx ny)" for k
  proof -
    have "k < ny * nx" using that by (simp add: length_VAE_lattice)
    then show ?thesis by (simp add: VAE_lattice_nth)
  qed
  then show ?thesis by (simp add: list_all_length)
qed

section \<open>SO3reparameterize.sampleSO3\<close>

text \<open>
  Claim C1, as amended. When the module is not training, \<open>sampleSO3\<close> returns its two
  arguments as they are: the mean rotation and, as second component, the standard
  deviation \<open>z_std\<close> (not a zero tangent vector). It draws nothing: the result is the same
  for every random source, and the source is left as it was.
\<close>

theorem sampleSO3_eval:
  "\<not> training self \<Longrightarrow> sampleSO3 self expmap z_mu z_std g = (Inr (z_mu, z_std), g)"
  by (simp add: sampleSO3_def)

theorem sampleSO3_eval_witness:
  "\<not> training \<lparr> training = False \<rparr> \<and>
   sampleSO3 \<lparr> training = False \<rparr> expmap_stub [rot_z90] [[1, 2, 3]] rng_zero
     = (Inr ([rot_z90], [[1, 2, 3]]), rng_zero)"
  using sampleSO3_eval [of "\<lparr> training = False \<rparr>" expmap_stub "[rot_z90]" "[[1, 2, 3]]" rng_zero]
  by simp

text \<open>
  Claim C1 as stated fails: in evaluation mode with standard deviation (1, 2, 3) the
  second component of the result is (1, 2, 3), not the zero vector.
\<close>

theorem sampleSO3_eval_tangent_counterexample:
  "fst (sampleSO3 \<lparr> training = False \<rparr> expmap_stub [rot_z90] [[1, 2, 3]] rng_zero)
     \<noteq> Inr ([rot_z90], [[0, 0, 0]])"
  by (simp add: sampleSO3_def)

text \<open>
  Claim C7, as amended. When the module is training, \<open>sampleSO3\<close> takes the next
  \<open>3 B\<close> draws of the random source as \<open>eps\<close> (\<open>B\<close> rows of three, in order) and returns
  the pair of the composed rotations \<open>z_mu \<cdot> expmap (eps * z_std)\<close> (the 3 x 3 matrix
  product, per batch element) and the tangent \<open>eps * z_std\<close> (entry by entry). The pair
  is determined by \<open>z_mu\<close>, \<open>z_std\<close> and the draws. The call is not free of other state:
  it reads the training flag of the module, and it leaves the random source advanced by
  the \<open>3 B\<close> draws it took.
\<close>

theorem sampleSO3_train:
  assumes "training self"
    and "list_all (\<lambda>r. length r = 3) z_std"
    and "w = map (\<lambda>b. map (\<lambda>i. draws g (pos g + 3 * b + i) * z_std ! b ! i) [0..<3])
               [0..<length z_std]"
    and "expmap w = Inr rot_eps"
    and "length z_mu = length rot_eps"
    and "list_all is3x3 z_mu" and "list_all is3x3 rot_eps"
  shows "sampleSO3 self expmap z_mu z_std g =
           (Inr (map2 mat_prod3 z_mu rot_eps, w), g\<lparr>pos := pos g + 3 * length z_std\<rparr>)"
proof -
  obtain eps g' where r: "randn_like z_std g = (eps, g')"
    by (cases "randn_like z_std g")
  have g': "g' = g\<lparr>pos := pos g + 3 * length z_std\<rparr>"
    using r by (simp add: randn_like_rows3[OF assms(2)])
  have "mul_elem (fst (randn_like z_std g)) z_std = w"
    by (simp only: tangent_rows3[OF assms(2)] assms(3))
  then have t: "mul_elem eps z_std = w" by (simp add: r)
  have b: "bmm z_mu rot_eps = Inr (map2 mat_prod3 z_mu rot_eps)"
    by (rule bmm_3x3[OF assms(5,6,7)])
  show ?thesis
    using assms(1) by (simp add: sampleSO3_def r t assms(4) b g')
qed

theorem sampleSO3_train_witness:
  "training \<lparr> training = True \<rparr> \<and>
   list_all (\<lambda>r. length r = 3) [[2, 1 / 2, 1], [1, 1, 2 :: real]] \<and>
   [[2, 1, 3], [4, 5, 12]]
     = map (\<lambda>b. map (\<lambda>i. draws rng_count (pos rng_count + 3 * b + i)
                              * [[2, 1 / 2, 1], [1, 1, 2]] ! b ! i) [0..<3])
         [0..<length [[2, 1 / 2, 1], [1, 1, 2 :: real]]] \<and>
   expmap_skew [[2, 1, 3], [4, 5, 12]]
     = Inr [[[1, - 3, 1], [3, 1, - 2], [- 1, 2, 1]], [[1, - 12, 5], [12, 1, - 4], [- 5, 4, 1]]] \<and>
   length [rot_z90, ident3]
     = length [[[1, - 3, 1], [3, 1, - 2], [- 1, 2, 1]], [[1, - 12, 5], [12, 1, - 4], [- 5, 4, 1 :: real]]] \<and>
   list_all is3x3 [rot_z90, ident3] \<and>
   list_all is3x3 [[[1, - 3, 1], [3, 1, - 2], [- 1, 2, 1]], [[1, - 12, 5], [12, 1, - 4], [- 5, 4, 1]]] \<and>
   sampleSO3 \<lparr> training = True \<rparr> expmap_skew [rot_z90, ident3] [[2, 1 / 2, 1], [1, 1, 2]] rng_count
     = (Inr ([[[- 3, - 1, 2], [1, - 3, 1], [- 1, 2, 1]], [[1, - 12, 5], [12, 1, - 4], [- 5, 4, 1]]],
             [[2, 1, 3], [4, 5, 12]]),
        rng_count\<lparr>pos := 7\<rparr>)"
proof -
  have up: "[0..<3] = [0, 1, 2]" "[0..<2] = [0, 1]" by (simp_all add: upt_rec)
  have w: "[[2, 1, 3], [4, 5, 12]]
     = map (\<lambda>b. map (\<lambda>i. draws rng_count (pos rng_count + 3 * b + i)
                              * [[2, 1 / 2, 1], [1, 1, 2]] ! b ! i) [0..<3])
         [0..<length [[2, 1 / 2, 1], [1, 1, 2 :: real]]]"
    by (simp add: rng_count_def up)
  have e: "expmap_skew [[2, 1, 3], [4, 5, 12]]
     = Inr [[[1, - 3, 1], [3, 1, - 2], [- 1, 2, 1]], [[1, - 12, 5], [12, 1, - 4], [- 5, 4, 1]]]"
    by (simp add: expmap_skew_def)
  have s: "list_all is3x3 [rot_z90, ident3]"
    "list_all is3x3 [[[1, - 3, 1], [3, 1, - 2], [- 1, 2, 1]], [[1, - 12, 5], [12, 1, - 4], [- 5, 4, 1]]]"
    by (simp_all add: is3x3_def rot_z90_def ident3_def)
  have z: "list_all (\<lambda>r. length r = 3) [[2, 1 / 2, 1], [1, 1, 2 :: real]]" by simp
  have m: "map2 mat_prod3 [rot_z90, ident3]
             [[[1, - 3, 1], [3, 1, - 2], [- 1, 2, 1]], [[1, - 12, 5], [12, 1, - 4], [- 5, 4, 1]]]
       = [[[- 3, - 1, 2], [1, - 3, 1], [- 1, 2, 1]], [[1, - 12, 5], [12, 1, - 4], [- 5, 4, 1]]]"
    by (simp add: mat_prod3_def rot_z90_def ident3_def up)
  have "sampleSO3 \<lparr> training = True \<rparr> expmap_skew [rot_z90, ident3] [[2, 1 / 2, 1], [1, 1, 2]] rng_count
     = (Inr (map2 mat_prod3 [rot_z90, ident3]
               [[[1, - 3, 1], [3, 1, - 2], [- 1, 2, 1]], [[1, - 12, 5], [12, 1, - 4], [- 5, 4, 1]]],
             [[2, 1, 3], [4, 5, 12]]),
        rng_count\<lparr>pos := pos rng_count + 3 * length [[2, 1 / 2, 1], [1, 1, 2 :: real]]\<rparr>)"
  proof (rule sampleSO3_train)
    show "training \<lparr> training = True \<rparr>" by simp
    show "list_all (\<lambda>r. length r = 3) [[2, 1 / 2, 1], [1, 1, 2 :: real]]" by (rule z)
    show "[[2, 1, 3], [4, 5, 12]]
     = map (\<lambda>b. map (\<lambda>i. draws rng_count (pos rng_count + 3 * b + i)
                              * [[2, 1 / 2, 1], [1, 1, 2]] ! b ! i) [0..<3])
         [0..<length [[2, 1 / 2, 1], [1, 1, 2 :: real]]]" by (rule w)
    show "expmap_skew [[2, 1, 3], [4, 5, 12]]
     = Inr [[[1, - 3, 1], [3, 1, - 2], [- 1, 2, 1]], [[1, - 12, 5], [12, 1, - 4], [- 5, 4, 1]]]"
      by (rule e)
    show "length [rot_z90, ident3]
     = length [[[1, - 3, 1], [3, 1, - 2], [- 1, 2, 1]], [[1, - 12, 5], [12, 1, - 4], [- 5, 4, 1 :: real]]]"
      by simp
    show "list_all is3x3 [rot_z90, ident3]" by (rule s(1))
    show "list_all is3x3
       [[[1, - 3, 1], [3, 1, - 2], [- 1, 2, 1]], [[1, - 12, 5], [12, 1, - 4], [- 5, 4, 1]]]"
      by (rule s(2))
  qed
  then show ?thesis
    using w e s z by (simp only: m) (simp add: rng_count_def)
qed

text \<open>
  Claim C7 as stated fails in its last part, that no other state is read or changed. The
  random source is not what it was after the call (its position has moved from 1 to 7),
  and with the same mean rotation, standard deviation and random source the result is
  another one when the training flag of the module is off.
\<close>

theorem sampleSO3_train_state_counterexample:
  "snd (sampleSO3 \<lparr> training = True \<rparr> expmap_skew [rot_z90, ident3]
          [[2, 1 / 2, 1], [1, 1, 2]] rng_count) = rng_count\<lparr>pos := 7\<rparr> \<and>
   snd (sampleSO3 \<lparr> training = True \<rparr> expmap_skew [rot_z90, ident3]
          [[2, 1 / 2, 1], [1, 1, 2]] rng_count) \<noteq> rng_count \<and>
   fst (sampleSO3 \<lparr> training = True \<rparr> expmap_skew [rot_z90, ident3]
          [[2, 1 / 2, 1], [1, 1, 2]] rng_count)
     \<noteq> fst (sampleSO3 \<lparr> training = False \<rparr> expmap_skew [rot_z90, ident3]
          [[2, 1 / 2, 1], [1, 1, 2]] rng_count)"
proof -
  have up: "[0..<3] = [0, 1, 2]" by (simp add: upt_rec)
  have t: "sampleSO3 \<lparr> training = True \<rparr> expmap_skew [rot_z90, ident3]
             [[2, 1 / 2, 1], [1, 1, 2]] rng_count
     = (Inr ([[[- 3, - 1, 2], [1, - 3, 1], [- 1, 2, 1]], [[1, - 12, 5], [12, 1, - 4], [- 5, 4, 1]]],
             [[2, 1, 3], [4, 5, 12]]),
        rng_count\<lparr>pos := 7\<rparr>)"
    by (simp add: sampleSO3_def rng_count_def up mul_elem_def expmap_skew_def bmm_def
        matmul_def rot_z90_def ident3_def Let_def)
  have f: "sampleSO3 \<lparr> training = False \<rparr> expmap_skew [rot_z90, ident3]
             [[2, 1 / 2, 1], [1, 1, 2]] rng_count
     = (Inr ([rot_z90, ident3], [[2, 1 / 2, 1], [1, 1, 2]]), rng_count)"
    by (simp add: sampleSO3_def)
  have n: "rng_count\<lparr>pos := 7\<rparr> \<noteq> rng_count"
    by (simp add: rng_count_def)
  show ?thesis
    using n by (simp add: t f)
qed

section \<open>FTSliceDecoder.__init__\<close>

text \<open>
  Claim C2. For every even image width \<open>D > 0\<close> the constructor succeeds, the centre
  index is \<open>(D div 2) * D + D div 2\<close> (10 for \<open>D = 4\<close>), \<open>all_eval\<close> and \<open>bottom_rev\<close>
  are disjoint and together hold exactly the flat pixel indices \<open>0, ..., D\<^sup>2 - 1\<close>, no
  index is listed twice, and \<open>top\<close> and \<open>bottom_rev\<close> have the same number of entries.
\<close>

theorem index_sets_partition:
  assumes "even D" and "0 < D"
  shows "\<exists>self. FTSliceDecoder_init indim D net = Inr self
     \<and> center self = (D div 2) * D + D div 2
     \<and> set (all_eval self) \<inter> set (bottom_rev self) = {}
     \<and> set (all_eval self) \<union> set (bottom_rev self) = {0..<D ^ 2}
     \<and> distinct (all_eval self) \<and> distinct (bottom_rev self) \<and> distinct (top_ix self)
     \<and> length (top_ix self) = length (bottom_rev self)
     \<and> card (set (top_ix self)) = card (set (bottom_rev self))"
proof -
  define c where "c = (D div 2) * D + D div 2"
  define self where "self =
     \<lparr> decoder = \<lparr> in_dim = indim, main = net \<rparr>,
       center = c,
       extra = filter (\<lambda>k. k mod D = 0) [c + 1..<D * D],
       all_eval = [0..<c + 1] @ filter (\<lambda>k. k mod D = 0) [c + 1..<D * D],
       top_ix = filter (\<lambda>k. k mod D \<noteq> 0) [D..<(D div 2) * D + (D - D div 2)],
       bottom_rev = rev (filter (\<lambda>k. k mod D \<noteq> 0) [c + 1..<D * D]),
       img_D = D,
       img_D2 = D div 2 \<rparr>"
  have i: "FTSliceDecoder_init indim D net = Inr self"
    unfolding self_def c_def by (rule init_fields[OF assms(2)])
  have cN: "c < D * D" unfolding c_def by (rule center_lt_square[OF assms(2)])
  have 1: "set (all_eval self) \<inter> set (bottom_rev self) = {}"
    by (auto simp: self_def)
  have 2: "set (all_eval self) \<union> set (bottom_rev self) = {0..<D ^ 2}"
    using cN by (auto simp: self_def power2_eq_square)
  have 3: "distinct (all_eval self)" "distinct (bottom_rev self)" "distinct (top_ix self)"
    by (auto simp: self_def)
  have t: "top_ix self = filter (\<lambda>k. k mod D \<noteq> 0) [D..<(D div 2) * D + (D - D div 2)]"
    by (simp add: self_def)
  have b: "bottom_rev self
             = rev (filter (\<lambda>k. k mod D \<noteq> 0) [(D div 2) * D + D div 2 + 1..<D * D])"
    by (simp add: self_def c_def)
  have lt: "length (top_ix self) = (D div 2) * (D - 1) - D div 2"
    by (simp only: t length_top_form[OF assms(2)])
  have lb: "length (bottom_rev self) = (D - D div 2) * (D - 1) - D div 2"
    by (simp only: b length_rev length_bottom_form[OF assms(2)])
  have 4: "length (top_ix self) = length (bottom_rev self)"
    by (simp only: lt lb even_half[OF assms(1)])
  have 5: "card (set (top_ix self)) = card (set (bottom_rev self))"
    using 3 4 by (simp add: distinct_card)
  have 0: "center self = (D div 2) * D + D div 2"
    by (simp add: self_def c_def)
  show ?thesis
    using i 0 1 2 3 4 5 by blast
qed

theorem index_sets_partition_witness:
  "even (4 :: nat) \<and> (0 :: nat) < 4 \<and>
   FTSliceDecoder_init 3 4 net_sum = Inr (decoder4 3 net_sum) \<and>
   center (decoder4 3 net_sum) = 10 \<and>
   set (all_eval (decoder4 3 net_sum)) \<inter> set (bottom_rev (decoder4 3 net_sum)) = {} \<and>
   set (all_eval (decoder4 3 net_sum)) \<union> set (bottom_rev (decoder4 3 net_sum)) = {0..<16} \<and>
   distinct (all_eval (decoder4 3 net_sum)) \<and> distinct (bottom_rev (decoder4 3 net_sum)) \<and>
   distinct (top_ix (decoder4 3 net_sum)) \<and>
   length (top_ix (decoder4 3 net_sum)) = length (bottom_rev (decoder4 3 net_sum)) \<and>
   card (set (top_ix (decoder4 3 net_sum))) = card (set (bottom_rev (decoder4 3 net_sum)))"
proof -
  obtain self where s: "FTSliceDecoder_init 3 4 net_sum = Inr self"
      and p: "center self = (4 div 2) * 4 + 4 div 2"
        "set (all_eval self) \<inter> set (bottom_rev self) = {}"
        "set (all_eval self) \<union> set (bottom_rev self) = {0..<4 ^ 2}"
        "distinct (all_eval self)" "distinct (bottom_rev self)" "distinct (top_ix self)"
        "length (top_ix self) = length (bottom_rev self)"
        "card (set (top_ix self)) = card (set (bottom_rev self))"
    using index_sets_partition [of 4 3 net_sum] by auto
  have e: "self = decoder4 3 net_sum"
    using s by (simp add: init_4)
  show ?thesis
    using p unfolding e by (simp add: init_4)
qed

text \<open>
  Claim C5, as amended. The constructor has no check of the parity of \<open>D\<close>: for every
  odd \<open>D\<close> it succeeds and builds the index lists, in which \<open>bottom_rev\<close> has \<open>D - 1\<close>
  entries more than \<open>top\<close>.
\<close>

theorem odd_D_is_not_rejected:
  assumes "odd D"
  shows "\<exists>self. FTSliceDecoder_init indim D net = Inr self
     \<and> length (bottom_rev self) = length (top_ix self) + (D - 1)"
proof -
  have D: "0 < D" using assms by (cases D) simp_all
  define m where "m = D div 2"
  have Dm: "D - m = Suc m" unfolding m_def by (rule odd_half[OF assms])
  have D1: "D - 1 = 2 * m" using assms by (auto simp: m_def elim: oddE)
  define self where "self =
     \<lparr> decoder = \<lparr> in_dim = indim, main = net \<rparr>,
       center = m * D + m,
       extra = filter (\<lambda>k. k mod D = 0) [m * D + m + 1..<D * D],
       all_eval = [0..<m * D + m + 1] @ filter (\<lambda>k. k mod D = 0) [m * D + m + 1..<D * D],
       top_ix = filter (\<lambda>k. k mod D \<noteq> 0) [D..<m * D + (D - m)],
       bottom_rev = rev (filter (\<lambda>k. k mod D \<noteq> 0) [m * D + m + 1..<D * D]),
       img_D = D,
       img_D2 = m \<rparr>"
  have i: "FTSliceDecoder_init indim D net = Inr self"
    unfolding self_def m_def by (rule init_fields[OF D])
  have t: "top_ix self = filter (\<lambda>k. k mod D \<noteq> 0) [D..<m * D + (D - m)]"
    by (simp add: self_def)
  have b: "bottom_rev self = rev (filter (\<lambda>k. k mod D \<noteq> 0) [m * D + m + 1..<D * D])"
    by (simp add: self_def)
  have lt: "length (top_ix self) = m * (D - 1) - m"
    unfolding t m_def by (rule length_top_form[OF D])
  have lb: "length (bottom_rev self) = (D - m) * (D - 1) - m"
    unfolding b m_def length_rev by (rule length_bottom_form[OF D])
  have "m \<le> m * (D - 1)"
    using D1 by (cases "m = 0") simp_all
  then have "Suc m * (D - 1) - m = (m * (D - 1) - m) + (D - 1)"
    by simp
  then have "length (bottom_rev self) = length (top_ix self) + (D - 1)"
    by (simp only: lt lb Dm)
  then show ?thesis using i by blast
qed

theorem odd_D_is_not_rejected_witness:
  "odd (3 :: nat) \<and> FTSliceDecoder_init 3 3 net_sum = Inr (decoder3 3 net_sum) \<and>
   length (bottom_rev (decoder3 3 net_sum)) = length (top_ix (decoder3 3 net_sum)) + (3 - 1)"
proof -
  obtain self where s: "FTSliceDecoder_init 3 3 net_sum = Inr self"
      and p: "length (bottom_rev self) = length (top_ix self) + (3 - 1)"
    using odd_D_is_not_rejected [of 3 3 net_sum] by auto
  have e: "self = decoder3 3 net_sum"
    using s by (simp add: init_3)
  show ?thesis
    using p unfolding e by (simp add: init_3)
qed

text \<open>
  Claim C5 as stated fails: constructing with \<open>D = 3\<close> raises nothing; it returns a
  decoder object.
\<close>

theorem odd_D_construction_counterexample:
  "FTSliceDecoder_init 3 3 net_sum = Inr (decoder3 3 net_sum) \<and>
   (\<nexists>e. FTSliceDecoder_init 3 3 net_sum = Inl e)"
  by (simp add: init_3)

text \<open>
  Claim C10. For every even \<open>D > 0\<close>, every index in \<open>top\<close> is at most \<open>center\<close>; it
  is therefore a valid position of the half-evaluation buffer (which has one entry per
  element of \<open>all_eval\<close>), and at that position \<open>all_eval\<close> holds the index itself, so the
  buffer entry read through \<open>top\<close> is the one of the same pixel.
\<close>

theorem top_within_evaluated_half:
  assumes "even D" and "0 < D" and "FTSliceDecoder_init indim D net = Inr self"
  shows "\<forall>t \<in> set (top_ix self).
           t \<le> center self \<and> t < length (all_eval self) \<and> all_eval self ! t = t"
proof
  fix t assume t: "t \<in> set (top_ix self)"
  define c where "c = (D div 2) * D + D div 2"
  have s: "center self = c"
          "all_eval self = [0..<c + 1] @ filter (\<lambda>k. k mod D = 0) [c + 1..<D * D]"
          "top_ix self = filter (\<lambda>k. k mod D \<noteq> 0) [D..<(D div 2) * D + (D - D div 2)]"
    using assms(3) unfolding init_fields[OF assms(2)] c_def by auto
  have "t < c"
    using t by (simp add: s(3) even_half[OF assms(1)] c_def)
  then show "t \<le> center self \<and> t < length (all_eval self) \<and> all_eval self ! t = t"
    by (simp add: s(1,2) nth_append)
qed

theorem top_within_evaluated_half_witness:
  "even (4 :: nat) \<and> (0 :: nat) < 4 \<and>
   FTSliceDecoder_init 3 4 net_sum = Inr (decoder4 3 net_sum) \<and>
   9 \<in> set (top_ix (decoder4 3 net_sum)) \<and>
   9 \<le> center (decoder4 3 net_sum) \<and> 9 < length (all_eval (decoder4 3 net_sum)) \<and>
   all_eval (decoder4 3 net_sum) ! 9 = 9"
proof -
  have m: "9 \<in> set (top_ix (decoder4 3 net_sum))"
    by (simp add: decoder4_def)
  have "\<forall>t \<in> set (top_ix (decoder4 3 net_sum)).
           t \<le> center (decoder4 3 net_sum) \<and> t < length (all_eval (decoder4 3 net_sum))
           \<and> all_eval (decoder4 3 net_sum) ! t = t"
    using top_within_evaluated_half [of 4 3 net_sum "decoder4 3 net_sum"]
    by (simp add: init_4)
  then show ?thesis
    using m by (simp add: init_4)
qed

section \<open>FTSliceDecoder.decode\<close>

text \<open>
  Claim C4, as amended. \<open>decode\<close> writes to the array it is given: after the call every
  row whose third component is strictly positive has its first three components negated,
  and every other row is as before. So a batch with at least one such row is changed by
  the call.
\<close>

theorem decode_writes_callers_array:
  assumes "list_all (\<lambda>p. 3 \<le> length p) lattice"
  shows "fst (decode self lattice) = map (\<lambda>p. if p ! 2 > 0 then negate3 p else p) lattice
       \<and> ((\<exists>p \<in> set lattice. p ! 2 > 0) \<longrightarrow> fst (decode self lattice) \<noteq> lattice)"
proof (intro conjI impI)
  show b: "fst (decode self lattice) = map (\<lambda>p. if p ! 2 > 0 then negate3 p else p) lattice"
    by (rule decode_buffer[OF assms])
  assume "\<exists>p \<in> set lattice. p ! 2 > 0"
  then obtain p where p: "p \<in> set lattice" "p ! 2 > 0" by blast
  then have l: "3 \<le> length p" using assms by (simp add: list_all_iff)
  show "fst (decode self lattice) \<noteq> lattice"
  proof
    assume "fst (decode self lattice) = lattice"
    then have "map (\<lambda>p. if p ! 2 > 0 then negate3 p else p) lattice = map (\<lambda>p. p) lattice"
      using b by simp
    then have "(if p ! 2 > 0 then negate3 p else p) = p"
      using p(1) by (simp only: map_eq_conv)
    then have "negate3 p = p" using p(2) by simp
    then have "negate3 p ! 2 = p ! 2" by simp
    then show False using negate3_nth2[OF l] p(2) by simp
  qed
qed

theorem decode_writes_callers_array_witness:
  "list_all (\<lambda>p. 3 \<le> length p) [[1, 2, 3], [4, 5, - 6 :: real]] \<and>
   fst (decode (decoder4 3 net_sum) [[1, 2, 3], [4, 5, - 6]]) = [[- 1, - 2, - 3], [4, 5, - 6]] \<and>
   (\<exists>p \<in> set [[1, 2, 3], [4, 5, - 6 :: real]]. p ! 2 > 0) \<and>
   fst (decode (decoder4 3 net_sum) [[1, 2, 3], [4, 5, - 6]]) \<noteq> [[1, 2, 3], [4, 5, - 6]]"
  using decode_writes_callers_array [of "[[1, 2, 3], [4, 5, - 6]]" "decoder4 3 net_sum"]
  by (simp add: negate3_def)

text \<open>
  Claim C4 as stated fails: the caller's array [[1, 2, 3]] holds [[-1, -2, -3]] after
  the call.
\<close>

theorem decode_leaves_array_counterexample:
  "fst (decode (decoder4 3 net_sum) [[1, 2, 3]]) = [[- 1, - 2, - 3]] \<and>
   fst (decode (decoder4 3 net_sum) [[1, 2, 3]]) \<noteq> [[1, 2, 3]]"
  by (simp add: decode_def ResidLinearDecoder_forward_def decoder4_def negate3_def)

text \<open>
  Claim C6. For a coordinate \<open>p\<close> with positive third component and its negation
  (\<open>negate3 p\<close>, which is \<open>- p\<close> when the coordinate has three components), and any core
  decoder: decoding the negation gives the same real channel and the negated imaginary
  channel as decoding \<open>p\<close>. Each call gets an array of its own.
\<close>

theorem decode_round_trip:
  assumes "length p = in_dim (decoder self)" and "3 \<le> length p" and "p ! 2 > 0"
  shows "\<exists>re im. snd (decode self [p]) = Inr [(re, im)]
               \<and> snd (decode self [negate3 p]) = Inr [(re, - im)]
               \<and> (length p = 3 \<longrightarrow> negate3 p = map uminus p)"
proof -
  have n: "\<not> negate3 p ! 2 > 0" using negate3_nth2[OF assms(2)] assms(3) by simp
  have 1: "snd (decode self [p]) =
      Inr [(fst (main (decoder self) (negate3 p)), - snd (main (decoder self) (negate3 p)))]"
    using assms by (simp add: decode_result)
  have 2: "snd (decode self [negate3 p]) = Inr [main (decoder self) (negate3 p)]"
    using assms(1,2) n by (simp add: decode_result length_negate3)
  show ?thesis
    using 1 2 by (simp add: negate3_len3)
qed

theorem decode_round_trip_witness:
  "length [1, 2, 3 :: real] = in_dim (decoder (decoder4 3 net_herm)) \<and>
   3 \<le> length [1, 2, 3 :: real] \<and> [1, 2, 3 :: real] ! 2 > 0 \<and>
   snd (decode (decoder4 3 net_herm) [[1, 2, 3]]) = Inr [(14, 6)] \<and>
   snd (decode (decoder4 3 net_herm) [negate3 [1, 2, 3]]) = Inr [(14, - 6)] \<and>
   negate3 [1, 2, 3] = map uminus [1, 2, 3]"
  using decode_round_trip [of "[1, 2, 3]" "decoder4 3 net_herm"]
  by (simp add: decoder4_def decode_def ResidLinearDecoder_forward_def negate3_def net_herm_def)

section \<open>FTSliceDecoder.forward\<close>

text \<open>
  Claim C3, as amended. Let \<open>D > 0\<close> be even and the lattice have \<open>D\<^sup>2\<close> rows. If the
  core decoder is Hermitian on the rows of the lattice (at the negated coordinate it
  gives the same real and the negated imaginary channel) and the pixels of
  \<open>bottom_rev\<close> are the point reflections of the pixels of \<open>top\<close>, then \<open>forward\<close>
  returns, at every pixel, the value of the naive full-grid evaluation of real minus
  imaginary.
\<close>

theorem forward_equals_full_grid_for_hermitian:
  assumes "even D" and "0 < D" and "FTSliceDecoder_init indim D net = Inr self"
    and "length lattice = D ^ 2"
    and "list_all (\<lambda>p. length p = indim) lattice"
    and "3 \<le> indim"
    and "list_all (\<lambda>p. net (negate3 p) = (fst (net p), - snd (net p))) lattice"
    and "map (\<lambda>t. lattice ! t) (top_ix self)
           = map (\<lambda>b. negate3 (lattice ! b)) (bottom_rev self)"
  shows "\<exists>img. full_grid_eval (decoder self) lattice = Inr img
             \<and> forward1 self lattice = Inr (map Some img)"
proof -
  have len: "length lattice = D * D" using assms(4) by (simp add: power2_eq_square)
  have d: "decoder self = \<lparr> in_dim = indim, main = net \<rparr>"
    by (rule even_index_facts(1)[OF assms(1,2,3)])
  define img where "img = map (\<lambda>p. case net p of (re, im) \<Rightarrow> re - im) lattice"
  have g: "full_grid_eval (decoder self) lattice = Inr img"
    using assms(5) by (simp add: full_grid_eval_def ResidLinearDecoder_forward_def d img_def)
  obtain R where R: "forward1 self lattice = Inr R" "length R = D * D"
      "\<forall>k < D * D. R ! k = Some (case net (lattice ! k) of (re, im) \<Rightarrow> re - im)"
    using hermitian_pixels[OF assms(1,2,3) len assms(5,6,7,8)] by blast
  have "R = map Some img"
  proof (rule nth_equalityI)
    show "length R = length (map Some img)" by (simp add: R(2) img_def len)
  next
    fix k assume "k < length R"
    then have "k < D * D" by (simp add: R(2))
    then show "R ! k = map Some img ! k" using R(3) by (simp add: img_def len)
  qed
  then show ?thesis using g R(1) by simp
qed

theorem forward_equals_full_grid_for_hermitian_witness:
  "even (4 :: nat) \<and> (0 :: nat) < 4 \<and>
   FTSliceDecoder_init 3 4 net_herm = Inr (decoder4 3 net_herm) \<and>
   length (VAE_lattice 4 4) = 4 ^ 2 \<and>
   list_all (\<lambda>p. length p = 3) (VAE_lattice 4 4) \<and> (3 :: nat) \<le> 3 \<and>
   list_all (\<lambda>p. net_herm (negate3 p) = (fst (net_herm p), - snd (net_herm p)))
     (VAE_lattice 4 4) \<and>
   map (\<lambda>t. VAE_lattice 4 4 ! t) (top_ix (decoder4 3 net_herm))
     = map (\<lambda>b. negate3 (VAE_lattice 4 4 ! b)) (bottom_rev (decoder4 3 net_herm)) \<and>
   full_grid_eval (decoder (decoder4 3 net_herm)) (VAE_lattice 4 4)
     = Inr [4, 11 / 4, 2, 7 / 4, 11 / 4, 3 / 2, 3 / 4, 1 / 2,
            2, 3 / 4, 0, - (1 / 4), 7 / 4, 1 / 2, - (1 / 4), - (1 / 2)] \<and>
   forward1 (decoder4 3 net_herm) (VAE_lattice 4 4)
     = Inr (map Some [4, 11 / 4, 2, 7 / 4, 11 / 4, 3 / 2, 3 / 4, 1 / 2,
                      2, 3 / 4, 0, - (1 / 4), 7 / 4, 1 / 2, - (1 / 4), - (1 / 2)])"
proof -
  have h: "list_all (\<lambda>p. net_herm (negate3 p) = (fst (net_herm p), - snd (net_herm p)))
             (VAE_lattice 4 4)"
    by (simp add: VAE_lattice_4x4 net_herm_def negate3_def)
  have p: "map (\<lambda>t. VAE_lattice 4 4 ! t) (top_ix (decoder4 3 net_herm))
             = map (\<lambda>b. negate3 (VAE_lattice 4 4 ! b)) (bottom_rev (decoder4 3 net_herm))"
    by (simp add: VAE_lattice_4x4 decoder4_def negate3_def)
  have l: "length (VAE_lattice 4 4) = 4 ^ 2" "list_all (\<lambda>p. length p = 3) (VAE_lattice 4 4)"
    using lattice4_rows by simp_all
  have g: "full_grid_eval (decoder (decoder4 3 net_herm)) (VAE_lattice 4 4)
     = Inr [4, 11 / 4, 2, 7 / 4, 11 / 4, 3 / 2, 3 / 4, 1 / 2,
            2, 3 / 4, 0, - (1 / 4), 7 / 4, 1 / 2, - (1 / 4), - (1 / 2)]"
    by (simp add: VAE_lattice_4x4 decoder4_def net_herm_def full_grid_eval_def
        ResidLinearDecoder_forward_def)
  obtain img where i: "full_grid_eval (decoder (decoder4 3 net_herm)) (VAE_lattice 4 4) = Inr img"
      "forward1 (decoder4 3 net_herm) (VAE_lattice 4 4) = Inr (map Some img)"
    using forward_equals_full_grid_for_hermitian
      [of 4 3 net_herm "decoder4 3 net_herm" "VAE_lattice 4 4", OF _ _ init_4 l(1) l(2) _ h p]
    by auto
  have "img = [4, 11 / 4, 2, 7 / 4, 11 / 4, 3 / 2, 3 / 4, 1 / 2,
               2, 3 / 4, 0, - (1 / 4), 7 / 4, 1 / 2, - (1 / 4), - (1 / 2)]"
    using i(1) g by simp
  then show ?thesis
    using i(2) g h p l by (simp add: init_4)
qed

text \<open>
  Claim C3 as stated fails. For the core decoder with real channel the sum of the
  coordinates and imaginary channel zero, on the 4 x 4 lattice, the naive evaluation and
  \<open>forward\<close> differ in the pixels of \<open>bottom_rev\<close>: pixel 15 is 1 in the first and -1 in
  the second.
\<close>

theorem forward_sum_decoder_counterexample:
  "full_grid_eval (decoder (decoder4 3 net_sum)) (VAE_lattice 4 4)
     = Inr [- 2, - (3 / 2), - 1, - (1 / 2), - (3 / 2), - 1, - (1 / 2), 0,
            - 1, - (1 / 2), 0, 1 / 2, - (1 / 2), 0, 1 / 2, 1] \<and>
   forward1 (decoder4 3 net_sum) (VAE_lattice 4 4)
     = Inr [Some (- 2), Some (- (3 / 2)), Some (- 1), Some (- (1 / 2)),
            Some (- (3 / 2)), Some (- 1), Some (- (1 / 2)), Some 0,
            Some (- 1), Some (- (1 / 2)), Some 0, Some (- (1 / 2)),
            Some (- (1 / 2)), Some 0, Some (- (1 / 2)), Some (- 1)] \<and>
   forward1 (decoder4 3 net_sum) (VAE_lattice 4 4)
     \<noteq> Inr (map Some [- 2, - (3 / 2), - 1, - (1 / 2), - (3 / 2), - 1, - (1 / 2), 0,
                      - 1, - (1 / 2), 0, 1 / 2, - (1 / 2), 0, 1 / 2, 1])"
  by (simp add: VAE_lattice_4x4 forward1_def decoder4_def gather_def scatter_def decode_def
      ResidLinearDecoder_forward_def net_sum_def full_grid_eval_def)

text \<open>
  In exact arithmetic the lattice that \<open>VAE.__init__\<close> builds for an even \<open>D > 0\<close> has
  the point symmetry asked for above (\<open>VAE_lattice_pairing\<close>), so on it \<open>forward\<close> agrees
  with the naive evaluation for every core decoder that is Hermitian on its rows. This is
  a fact about the real-valued lattice: where the floating-point \<open>linspace\<close> rounds (it is
  exact for \<open>D = 4\<close>), mirrored coordinates can differ in the last bit.
\<close>

lemma forward1_on_VAE_lattice:
  assumes "even D" and "0 < D" and "FTSliceDecoder_init 3 D net = Inr self"
    and "list_all (\<lambda>p. net (negate3 p) = (fst (net p), - snd (net p))) (VAE_lattice D D)"
  shows "\<exists>img. full_grid_eval (decoder self) (VAE_lattice D D) = Inr img
             \<and> forward1 self (VAE_lattice D D) = Inr (map Some img)"
proof -
  let ?L = "VAE_lattice D D"
  have len: "length ?L = D * D" by (rule length_VAE_lattice)
  have rows: "list_all (\<lambda>p. length p = 3) ?L" by (rule VAE_lattice_rows3)
  have pair: "map (\<lambda>t. ?L ! t) (top_ix self) = map (\<lambda>b. negate3 (?L ! b)) (bottom_rev self)"
    by (rule VAE_lattice_pairing[OF assms(1,2,3)])
  have d: "decoder self = \<lparr> in_dim = 3, main = net \<rparr>"
    by (rule even_index_facts(1)[OF assms(1,2,3)])
  define img where "img = map (\<lambda>p. case net p of (re, im) \<Rightarrow> re - im) ?L"
  have g: "full_grid_eval (decoder self) ?L = Inr img"
    using rows by (simp add: full_grid_eval_def ResidLinearDecoder_forward_def d img_def)
  obtain R where R: "forward1 self ?L = Inr R" "length R = D * D"
      "\<forall>k < D * D. R ! k = Some (case net (?L ! k) of (re, im) \<Rightarrow> re - im)"
    using hermitian_pixels[OF assms(1,2,3) len rows _ assms(4) pair] by auto
  have "R = map Some img"
  proof (rule nth_equalityI)
    show "length R = length (map Some img)" by (simp add: R(2) img_def len)
  next
    fix k assume "k < length R"
    then have "k < D * D" by (simp add: R(2))
    then show "R ! k = map Some img ! k" using R(3) by (simp add: img_def len)
  qed
  then show ?thesis using g R(1) by simp
qed

section \<open>HetVAE.forward\<close>

text \<open>
  Claim C8, as amended. \<open>HetVAE.forward\<close> has no check of the rotation matrices: for
  every batch of 3 x 3 matrices, orthonormal or not, with one latent value per batch
  element, an even \<open>D > 0\<close> and a lattice of \<open>D\<^sup>2\<close> coordinates of three components, it
  raises nothing and returns one image per batch element with every pixel written.
\<close>

theorem forward_accepts_any_matrix:
  assumes "even D" and "0 < D"
    and "HetVAE_init coords D 1 net = Inr self"
    and "length coords = D ^ 2" and "list_all (\<lambda>p. length p = 3) coords"
    and "list_all is3x3 rot"
    and "length z = length rot" and "list_all (\<lambda>r. length r = 1) z"
  shows "\<exists>img. HetVAE_forward self rot z = Inr img \<and> length img = length rot
           \<and> list_all (\<lambda>im. length im = D ^ 2 \<and> None \<notin> set im) img"
proof -
  obtain d where d: "FTSliceDecoder_init 4 D net = Inr d"
      and self: "self = \<lparr> lattice_coords = coords, z_dim = 1, vae_decoder = d \<rparr>"
    using assms(3) by (auto simp: HetVAE_init_def split: sum.splits)
  have len: "length coords = D * D" using assms(4) by (simp add: power2_eq_square)
  obtain x where x: "map_err (matmul coords) rot = Inr x" "length x = length rot"
      "list_all (\<lambda>X. length X = length coords \<and> list_all (\<lambda>r. length r = 3) X) x"
  proof -
    have "\<exists>X. matmul coords R = Inr X
            \<and> (length X = length coords \<and> list_all (\<lambda>r. length r = 3) X)"
      if "R \<in> set rot" for R
      using matmul_rows3[OF assms(5), of R] that assms(6) by (simp add: list_all_iff)
    then have "\<exists>ys. map_err (matmul coords) rot = Inr ys \<and> length ys = length rot
         \<and> list_all (\<lambda>X. length X = length coords \<and> list_all (\<lambda>r. length r = 3) X) ys"
      by (rule map_err_ok)
    then show ?thesis using that by blast
  qed
  have x3: "list_all (list_all (\<lambda>p. length p = 3)) x"
    using x(3) by (simp add: list_all_iff)
  obtain xz where xz: "cat_z x z = Inr xz" "length xz = length x"
      "\<forall>n < length x. length (xz ! n) = length (x ! n) \<and> list_all (\<lambda>p. length p = 4) (xz ! n)"
  proof -
    have "length z = length x" using assms(7) x(2) by simp
    from cat_z_ok[OF x3 this assms(8)] show ?thesis using that by blast
  qed
  have each: "\<exists>R. forward1 d l = Inr R \<and> (length R = D ^ 2 \<and> None \<notin> set R)"
    if l: "l \<in> set xz" for l
  proof -
    obtain n where n: "n < length xz" "xz ! n = l"
      using l by (auto simp: in_set_conv_nth)
    have "x ! n \<in> set x" using n(1) xz(2) by simp
    then have "length (x ! n) = D * D"
      using x(3) len by (simp add: list_all_iff)
    then have "length l = D * D" "list_all (\<lambda>p. length p = 4) l"
      using xz(3) n xz(2) by auto
    then show ?thesis
      using forward1_total[OF assms(1,2) d, of l] by (simp add: power2_eq_square)
  qed
  have "\<exists>ys. map_err (forward1 d) xz = Inr ys \<and> length ys = length xz
         \<and> list_all (\<lambda>im. length im = D ^ 2 \<and> None \<notin> set im) ys"
    using each by (rule map_err_ok)
  then obtain img where img: "map_err (forward1 d) xz = Inr img" "length img = length xz"
      "list_all (\<lambda>im. length im = D ^ 2 \<and> None \<notin> set im) img"
    by blast
  have "HetVAE_forward self rot z = Inr img"
    by (simp add: HetVAE_forward_def self x(1) xz(1) FTSliceDecoder_forward_def img(1))
  then show ?thesis using img(2,3) xz(2) x(2) by simp
qed

theorem forward_accepts_any_matrix_witness:
  "even (4 :: nat) \<and> (0 :: nat) < 4 \<and>
   HetVAE_init (VAE_lattice 4 4) 4 1 net_sum = Inr (hetvae4 net_sum) \<and>
   length (VAE_lattice 4 4) = 4 ^ 2 \<and> list_all (\<lambda>p. length p = 3) (VAE_lattice 4 4) \<and>
   list_all is3x3 [scale2] \<and> \<not> orthonormal3 scale2 \<and>
   length [[0 :: real]] = length [scale2] \<and> list_all (\<lambda>r. length r = 1) [[0 :: real]] \<and>
   (\<exists>img. HetVAE_forward (hetvae4 net_sum) [scale2] [[0]] = Inr img \<and> length img = 1
      \<and> list_all (\<lambda>im. length im = 16 \<and> None \<notin> set im) img)"
proof -
  have l: "length (VAE_lattice 4 4) = 4 ^ 2" "list_all (\<lambda>p. length p = 3) (VAE_lattice 4 4)"
    using lattice4_rows by simp_all
  have r: "list_all is3x3 [scale2]" "\<not> orthonormal3 scale2"
    using scale2_not_orthonormal by simp_all
  have "\<exists>img. HetVAE_forward (hetvae4 net_sum) [scale2] [[0]] = Inr img
           \<and> length img = length [scale2]
           \<and> list_all (\<lambda>im. length im = 4 ^ 2 \<and> None \<notin> set im) img"
    using forward_accepts_any_matrix
      [of 4 "VAE_lattice 4 4" net_sum "hetvae4 net_sum" "[scale2]" "[[0]]",
       OF _ _ init_hetvae4 l r(1)]
    by simp
  then show ?thesis
    using l r init_hetvae4 [of net_sum] by simp
qed

text \<open>
  Claim C8 as stated fails: the matrix 2 I is not orthonormal, and \<open>forward\<close> returns an
  image for it.
\<close>

theorem forward_non_orthonormal_counterexample:
  "\<not> orthonormal3 scale2 \<and>
   HetVAE_forward (hetvae4 net_sum) [scale2] [[0]]
     = Inr [[Some (- 4), Some (- 3), Some (- 2), Some (- 1),
             Some (- 3), Some (- 2), Some (- 1), Some 0,
             Some (- 2), Some (- 1), Some 0, Some (- 1),
             Some (- 1), Some 0, Some (- 1), Some (- 2)]]"
proof -
  have m: "matmul (VAE_lattice 4 4) scale2
      = Inr [[- 2, - 2, 0], [- 1, - 2, 0], [0, - 2, 0], [1, - 2, 0],
             [- 2, - 1, 0], [- 1, - 1, 0], [0, - 1, 0], [1, - 1, 0],
             [- 2, 0, 0], [- 1, 0, 0], [0, 0, 0], [1, 0, 0],
             [- 2, 1, 0], [- 1, 1, 0], [0, 1, 0], [1, 1, 0]]"
    by (simp add: VAE_lattice_4x4 matmul_def scale2_def upt_rec)
  have c: "cat_z [[[- 2, - 2, 0], [- 1, - 2, 0], [0, - 2, 0], [1, - 2, 0],
             [- 2, - 1, 0], [- 1, - 1, 0], [0, - 1, 0], [1, - 1, 0],
             [- 2, 0, 0], [- 1, 0, 0], [0, 0, 0], [1, 0, 0],
             [- 2, 1, 0], [- 1, 1, 0], [0, 1, 0], [1, 1, 0]]] [[0]]
      = Inr [[[- 2, - 2, 0, 0], [- 1, - 2, 0, 0], [0, - 2, 0, 0], [1, - 2, 0, 0],
             [- 2, - 1, 0, 0], [- 1, - 1, 0, 0], [0, - 1, 0, 0], [1, - 1, 0, 0],
             [- 2, 0, 0, 0], [- 1, 0, 0, 0], [0, 0, 0, 0], [1, 0, 0, 0],
             [- 2, 1, 0, 0], [- 1, 1, 0, 0], [0, 1, 0, 0], [1, 1, 0, 0]]]"
    by (simp add: cat_z_def Let_def)
  have f: "forward1 (decoder4 4 net_sum)
            [[- 2, - 2, 0, 0], [- 1, - 2, 0, 0], [0, - 2, 0, 0], [1, - 2, 0, 0],
             [- 2, - 1, 0, 0], [- 1, - 1, 0, 0], [0, - 1, 0, 0], [1, - 1, 0, 0],
             [- 2, 0, 0, 0], [- 1, 0, 0, 0], [0, 0, 0, 0], [1, 0, 0, 0],
             [- 2, 1, 0, 0], [- 1, 1, 0, 0], [0, 1, 0, 0], [1, 1, 0, 0]]
      = Inr [Some (- 4), Some (- 3), Some (- 2), Some (- 1),
             Some (- 3), Some (- 2), Some (- 1), Some 0,
             Some (- 2), Some (- 1), Some 0, Some (- 1),
             Some (- 1), Some 0, Some (- 1), Some (- 2)]"
    by (simp add: forward1_def decoder4_def gather_def scatter_def decode_def
        ResidLinearDecoder_forward_def net_sum_def)
  show ?thesis
    using scale2_not_orthonormal
    by (simp add: HetVAE_forward_def hetvae4_def m c FTSliceDecoder_forward_def f)
qed

section \<open>HetVAE.cat_z\<close>

text \<open>
  Claim C9. For a non-empty batch of latent codes \<open>z\<close> with \<open>zd\<close> components each:
  if \<open>zd > 1\<close> then \<open>cat_z\<close> raises, and so does \<open>HetVAE.forward\<close>; if \<open>zd = 1\<close> (and the
  coordinates are a batch of the same size with three components per row) \<open>cat_z\<close>
  succeeds and appends exactly one channel, the latent value of the batch element, to
  every coordinate.
\<close>

theorem cat_z_one_latent_dim:
  assumes "z \<noteq> []" and "list_all (\<lambda>r. length r = zd) z"
  shows "(1 < zd \<longrightarrow>
            (\<exists>e. cat_z coords z = Inl e) \<and> (\<exists>e. HetVAE_forward self rot z = Inl e))
       \<and> (zd = 1 \<and> length coords = length z
             \<and> list_all (list_all (\<lambda>p. length p = 3)) coords \<longrightarrow>
            cat_z coords z = Inr (map2 (\<lambda>m v. map (\<lambda>p. p @ [v]) m) coords (concat z)))"
proof (intro conjI impI)
  assume zd: "1 < zd"
  show "\<exists>e. cat_z coords z = Inl e"
    by (rule cat_z_fails[OF assms zd])
  show "\<exists>e. HetVAE_forward self rot z = Inl e"
  proof (cases "map_err (matmul (lattice_coords self)) rot")
    case (Inl e)
    then show ?thesis by (simp add: HetVAE_forward_def)
  next
    case (Inr x)
    obtain e where "cat_z x z = Inl e"
      using cat_z_fails[OF assms zd] by blast
    then show ?thesis using Inr by (simp add: HetVAE_forward_def)
  qed
next
  assume h: "zd = 1 \<and> length coords = length z
             \<and> list_all (list_all (\<lambda>p. length p = 3)) coords"
  have "length (concat z) = length z"
    using length_concat_rect[OF assms(2)] h by simp
  then show "cat_z coords z = Inr (map2 (\<lambda>m v. map (\<lambda>p. p @ [v]) m) coords (concat z))"
    using h by (simp add: cat_z_def)
qed

theorem cat_z_one_latent_dim_witness:
  "[[1, 2 :: real]] \<noteq> [] \<and> list_all (\<lambda>r. length r = 2) [[1, 2 :: real]] \<and> (1 :: nat) < 2 \<and>
   cat_z [[[0, 0, 0]]] [[1, 2]] = Inl ShapeError \<and>
   HetVAE_forward (hetvae4 net_sum) [ident3] [[1, 2]] = Inl ShapeError \<and>
   [[7 :: real]] \<noteq> [] \<and> list_all (\<lambda>r. length r = 1) [[7 :: real]] \<and>
   length [[[1, 2, 3 :: real]]] = length [[7 :: real]] \<and>
   list_all (list_all (\<lambda>p. length p = 3)) [[[1, 2, 3 :: real]]] \<and>
   cat_z [[[1, 2, 3]]] [[7]] = Inr [[[1, 2, 3, 7]]]"
proof -
  have b: "cat_z [[[0, 0, 0]]] [[1, 2]] = Inl ShapeError"
    by (simp add: cat_z_def)
  have c: "cat_z [VAE_lattice 4 4] [[1, 2]] = Inl ShapeError"
    by (simp add: cat_z_def VAE_lattice_4x4)
  have d: "HetVAE_forward (hetvae4 net_sum) [ident3] [[1, 2]] = Inl ShapeError"
    by (simp add: HetVAE_forward_def hetvae4_def matmul_lattice4_ident3 c)
  have e: "cat_z [[[1, 2, 3]]] [[7]] = Inr [[[1, 2, 3, 7]]]"
    using cat_z_one_latent_dim [of "[[7]]" 1 "[[[1, 2, 3]]]"] by simp
  have f: "\<exists>e. cat_z [[[0, 0, 0]]] [[1, 2]] = Inl e"
    using cat_z_one_latent_dim [of "[[1, 2]]" 2 "[[[0, 0, 0]]]"] by simp
  show ?thesis
    using b d e f by simp
qed

end
